theory Spec2Isabelle
  imports Complex_Main "HOL-Library.Word" "HOL-Library.Extended_Nat"
begin

unbundle bit_operations_syntax

section \<open>JavaScript values\<close>

text \<open>
  A JavaScript string is a sequence of UTF-16 code units: \<open>s.length\<close> counts code units,
  \<open>s[i]\<close> reads one, and a regular expression without the \<open>u\<close> flag steps through code
  units. A code unit is a 16-bit word; \<open>js\<close> embeds an ASCII literal.
\<close>

type_synonym jschar = "16 word"
type_synonym jsstring = "jschar list"

definition js :: "string \<Rightarrow> jsstring" where
  "js s = map of_char s"

text \<open>
  A value of type \<open>number | undefined\<close>. Numbers are modelled by the integer they denote
  (keysym codes, counts and coordinates are integers; the rounding of a double beyond
  \<open>2^53\<close> is not modelled), together with \<open>NaN\<close>.
\<close>

datatype jsval = Num int | NaN | Undefined

text \<open>\<open>!v\<close> for such a value.\<close>

definition falsy :: "jsval \<Rightarrow> bool" where
  "falsy v = (v = Undefined \<or> v = NaN \<or> v = Num 0)"

text \<open>
  The class \<open>\s\<close> of a regular expression, which is also what \<open>trimStart\<close> and
  \<open>parseInt\<close> strip: WhiteSpace and LineTerminator of ECMAScript.
\<close>

definition is_space :: "jschar \<Rightarrow> bool" where
  "is_space c =
     (c = 0x09 \<or> c = 0x0A \<or> c = 0x0B \<or> c = 0x0C \<or> c = 0x0D \<or> c = 0x20 \<or> c = 0xA0
      \<or> c = 0x1680 \<or> (0x2000 \<le> c \<and> c \<le> 0x200A) \<or> c = 0x2028 \<or> c = 0x2029
      \<or> c = 0x202F \<or> c = 0x205F \<or> c = 0x3000 \<or> c = 0xFEFF)"

text \<open>
  \<open>String.prototype.toLowerCase\<close> is a parameter \<open>lc\<close> of the keyboard mapper below.
  Closed examples use the ASCII part of it, which is all that the key names of the
  built-in keymaps need.
\<close>

definition toLowerCase_ascii :: "jsstring \<Rightarrow> jsstring" where
  "toLowerCase_ascii s = map (\<lambda>c. if 0x41 \<le> c \<and> c \<le> 0x5A then c + 0x20 else c) s"

text \<open>\<open>a | b\<close>: both operands are converted with ToInt32, the result is a signed 32-bit value.\<close>

definition js_or :: "int \<Rightarrow> int \<Rightarrow> int" where
  "js_or a b = signed_take_bit 31 a OR signed_take_bit 31 b"

text \<open>
  \<open>parseInt(string, radix)\<close> of ECMAScript: leading white space is skipped, then an
  optional sign, then (for radix 0 or 16) an optional \<open>0x\<close> or \<open>0X\<close>; the longest prefix
  of digits of the radix is read, and no digit at all gives \<open>NaN\<close>.
\<close>

definition digit_val :: "jschar \<Rightarrow> nat option" where
  "digit_val c =
     (if 0x30 \<le> c \<and> c \<le> 0x39 then Some (unat c - 0x30)
      else if 0x61 \<le> c \<and> c \<le> 0x7A then Some (unat c - 0x61 + 10)
      else if 0x41 \<le> c \<and> c \<le> 0x5A then Some (unat c - 0x41 + 10)
      else None)"

definition is_digit_of :: "nat \<Rightarrow> jschar \<Rightarrow> bool" where
  "is_digit_of R c = (case digit_val c of None \<Rightarrow> False | Some d \<Rightarrow> d < R)"

definition digits_value :: "nat \<Rightarrow> jsstring \<Rightarrow> nat" where
  "digits_value R Z =
     foldl (\<lambda>a c. case digit_val c of None \<Rightarrow> a | Some d \<Rightarrow> a * R + d) 0 Z"

definition parseInt :: "jsstring \<Rightarrow> nat \<Rightarrow> jsval" where
  "parseInt str radix =
     (let S = dropWhile is_space str;
          neg = (take 1 S = js ''-'');
          S1 = (if take 1 S = js ''+'' \<or> take 1 S = js ''-'' then drop 1 S else S)
      in if radix \<noteq> 0 \<and> (radix < 2 \<or> 36 < radix) then NaN
         else
           let hasPrefix = ((radix = 0 \<or> radix = 16)
                             \<and> (take 2 S1 = js ''0x'' \<or> take 2 S1 = js ''0X''));
               S2 = (if hasPrefix then drop 2 S1 else S1);
               R = (if hasPrefix then 16 else if radix = 0 then 10 else radix);
               Z = takeWhile (is_digit_of R) S2
           in if Z = [] then NaN
              else Num ((if neg then - 1 else 1) * int (digits_value R Z)))"

section \<open>Errors\<close>

text \<open>
  \<open>GuacamoleClientError\<close> with its three codes, \<open>GuacamoleCommandError\<close> with its two
  codes and the offending command, and the errors of the runtime that the code can raise
  (\<open>assert\<close>, \<open>RangeError\<close>, \<open>TypeError\<close>).
\<close>

datatype error =
    NOT_CONNECTED
  | UNKNOWN_KEY jsstring
  | CANVAS_NOT_INITIALIZED
  | UNKNOWN jsstring
  | INVALID_ARGUMENT jsstring
  | AssertionError
  | RangeError
  | TypeError

section \<open>keymaps.ts\<close>

text \<open>
  An object used as a table is the list of its entries in the order of
  \<open>Object.entries\<close>; a value may be \<open>undefined\<close> (\<open>None\<close> for a code sequence).
\<close>

type_synonym Keysyms = "(jsstring \<times> jsval) list"

record Keymap =
  name :: jsstring
  allowFallback :: bool
  modifiers :: Keysyms
  control :: Keysyms
  printable :: Keysyms
  combined :: "(jsstring \<times> jsval list option) list"

definition ControlKeysyms :: Keysyms where
  "ControlKeysyms =
     [(js ''Space'', Num 0x20),
      (js ''Backspace'', Num 0xff08), (js ''Bsp'', Num 0xff08),
      (js ''Tab'', Num 0xff09),
      (js ''Enter'', Num 0xff0d),
      (js ''Pause'', Num 0xff13),
      (js ''ScrollLock'', Num 0xff14), (js ''ScrLk'', Num 0xff14),
      (js ''SysReq'', Num 0xff15), (js ''SysRq'', Num 0xff15),
      (js ''Escape'', Num 0xff1b), (js ''Esc'', Num 0xff1b),
      (js ''Home'', Num 0xff50),
      (js ''Left'', Num 0xff51),
      (js ''Up'', Num 0xff52),
      (js ''Right'', Num 0xff53),
      (js ''Down'', Num 0xff54),
      (js ''PageUp'', Num 0xff55), (js ''PgUp'', Num 0xff55),
      (js ''PageDown'', Num 0xff56), (js ''PgDown'', Num 0xff56), (js ''PgDn'', Num 0xff56),
      (js ''End'', Num 0xff57),
      (js ''PrintScreen'', Num 0xff61), (js ''PrtSc'', Num 0xff61),
      (js ''Insert'', Num 0xff63), (js ''Ins'', Num 0xff63),
      (js ''Menu'', Num 0xff67),
      (js ''NumLock'', Num 0xff7f), (js ''NumLk'', Num 0xff7f),
      (js ''F1'', Num 0xffbe), (js ''F2'', Num 0xffbf), (js ''F3'', Num 0xffc0),
      (js ''F4'', Num 0xffc1), (js ''F5'', Num 0xffc2), (js ''F6'', Num 0xffc3),
      (js ''F7'', Num 0xffc4), (js ''F8'', Num 0xffc5), (js ''F9'', Num 0xffc6),
      (js ''F10'', Num 0xffc7), (js ''F11'', Num 0xffc8), (js ''F12'', Num 0xffc9),
      (js ''F13'', Num 0xffca), (js ''F14'', Num 0xffcb), (js ''F15'', Num 0xffcc),
      (js ''F16'', Num 0xffcd), (js ''F17'', Num 0xffce), (js ''F18'', Num 0xffcf),
      (js ''F19'', Num 0xffd0), (js ''F20'', Num 0xffd1), (js ''F21'', Num 0xffd2),
      (js ''F22'', Num 0xffd3), (js ''F23'', Num 0xffd4), (js ''F24'', Num 0xffd5),
      (js ''Delete'', Num 0xffff), (js ''Del'', Num 0xffff)]"

definition ModifierKeysyms :: Keysyms where
  "ModifierKeysyms =
     [(js ''LShift'', Num 0xffe1), (js ''Shift'', Num 0xffe1),
      (js ''RShift'', Num 0xffe2),
      (js ''LCtrl'', Num 0xffe3), (js ''Ctrl'', Num 0xffe3),
      (js ''RCtrl'', Num 0xffe4),
      (js ''CapsLock'', Num 0xffe5), (js ''CapLk'', Num 0xffe5),
      (js ''LAlt'', Num 0xffe9), (js ''Alt'', Num 0xffe9),
      (js ''RAlt'', Num 0xffea),
      (js ''LSuper'', Num 0xffeb), (js ''Super'', Num 0xffeb), (js ''Cmd'', Num 0xffeb),
      (js ''Win'', Num 0xffeb),
      (js ''RSuper'', Num 0xffec)]"

text \<open>\<open>Keymaps.DIRECT\<close>: control and modifier keys only, fallback allowed.\<close>

definition DIRECT :: Keymap where
  "DIRECT = \<lparr> name = js ''direct'', allowFallback = True, modifiers = ModifierKeysyms,
              control = ControlKeysyms, printable = [], combined = [] \<rparr>"

section \<open>keyboard.ts\<close>

text \<open>
  Assigning a property of an object keeps the place of a key that is already there and
  appends a new one; \<open>{...a, ...b}\<close> assigns the entries of \<open>a\<close>, then those of \<open>b\<close>.
  (Integer-like keys, which \<open>Object.entries\<close> lists first, keep their place among
  themselves; lower-casing never makes one of them meet another key.)
\<close>

fun set_prop :: "jsstring \<Rightarrow> 'v \<Rightarrow> (jsstring \<times> 'v) list \<Rightarrow> (jsstring \<times> 'v) list" where
  "set_prop k v [] = [(k, v)]"
| "set_prop k v (p # ps) = (if fst p = k then (k, v) # ps else p # set_prop k v ps)"

definition spread :: "(jsstring \<times> 'v) list \<Rightarrow> (jsstring \<times> 'v) list \<Rightarrow> (jsstring \<times> 'v) list" where
  "spread obj src = fold (\<lambda>(k, v) acc. set_prop k v acc) src obj"

text \<open>
  The three loops that fill a \<open>Map\<close>: for each entry whose value is not null, in order,
  \<open>map.set(key, value)\<close>. \<open>kf\<close> is applied to the key, \<open>conv\<close> gives the stored value
  (\<open>None\<close> when the entry is skipped).
\<close>

definition set_entries ::
  "(jsstring \<Rightarrow> jsstring) \<Rightarrow> ('v \<Rightarrow> 'w option) \<Rightarrow> (jsstring \<times> 'v) list
    \<Rightarrow> (jsstring \<rightharpoonup> 'w) \<Rightarrow> (jsstring \<rightharpoonup> 'w)" where
  "set_entries kf conv entries m =
     fold (\<lambda>(k, v) acc. case conv v of None \<Rightarrow> acc | Some w \<Rightarrow> acc(kf k \<mapsto> w)) entries m"

definition not_null :: "jsval \<Rightarrow> jsval option" where
  "not_null code = (if code \<noteq> Undefined then Some code else None)"

definition keysMap :: "(jsstring \<Rightarrow> jsstring) \<Rightarrow> Keymap \<Rightarrow> (jsstring \<rightharpoonup> jsval)" where
  "keysMap lc keymap =
     set_entries lc not_null
       (spread (spread (spread [] (control keymap)) (modifiers keymap)) (printable keymap))
       Map.empty"

text \<open>\<open>map.get(k)\<close>, which is \<open>undefined\<close> for a missing key.\<close>

definition map_get :: "(jsstring \<rightharpoonup> jsval) \<Rightarrow> jsstring \<Rightarrow> jsval" where
  "map_get m k = (case m k of None \<Rightarrow> Undefined | Some v \<Rightarrow> v)"

definition charsMap :: "(jsstring \<Rightarrow> jsstring) \<Rightarrow> Keymap \<Rightarrow> (jsstring \<rightharpoonup> jsval list)" where
  "charsMap lc keymap =
     (let m1 = set_entries (\<lambda>k. k) (\<lambda>code. map_option (\<lambda>c. [c]) (not_null code))
                 (printable keymap) Map.empty;
          m2 = set_entries (\<lambda>k. k) (\<lambda>codes. codes) (combined keymap) m1
      in m2([0x0A] \<mapsto> [map_get (keysMap lc keymap) (js ''enter'')],
            [0x20] \<mapsto> [map_get (keysMap lc keymap) (js ''space'')],
            [0x09] \<mapsto> [map_get (keysMap lc keymap) (js ''tab'')]))"

definition translateKey ::
  "(jsstring \<Rightarrow> jsstring) \<Rightarrow> Keymap \<Rightarrow> jsstring \<Rightarrow> error + jsval" where
  "translateKey lc keymap key =
     (if take 2 key = js ''0x'' then Inr (parseInt (drop 2 key) 16)
      else
        let keysym = map_get (keysMap lc keymap) (lc key)
        in if falsy keysym then Inl (UNKNOWN_KEY key) else Inr keysym)"

definition isControlChar :: "int \<Rightarrow> bool" where
  "isControlChar codepoint =
     (codepoint \<le> 0x1f \<or> (codepoint \<ge> 0x7f \<and> codepoint \<le> 0x9f))"

definition keysymFromCodePoint :: "int \<Rightarrow> error + int" where
  "keysymFromCodePoint codepoint =
     (if isControlChar codepoint then Inr (js_or 0xff00 codepoint)
      else if codepoint \<ge> 0x0000 \<and> codepoint \<le> 0x00ff then Inr codepoint
      else if codepoint \<ge> 0x0100 \<and> codepoint \<le> 0x10ffff then Inr (js_or 0x01000000 codepoint)
      else Inl RangeError)"

text \<open>
  \<open>char.codePointAt(0)\<close> of a string of length 1 is its code unit (a lone surrogate
  included).
\<close>

definition translateChar ::
  "(jsstring \<Rightarrow> jsstring) \<Rightarrow> Keymap \<Rightarrow> jsstring \<Rightarrow> error + jsval list" where
  "translateChar lc keymap char =
     (if length char \<noteq> 1 then Inl AssertionError
      else case charsMap lc keymap char of
          Some keysyms \<Rightarrow> Inr keysyms
        | None \<Rightarrow>
            if allowFallback keymap
            then (case keysymFromCodePoint (uint (hd char)) of
                    Inl e \<Rightarrow> Inl e
                  | Inr k \<Rightarrow> Inr [Num k])
            else Inl (UNKNOWN_KEY char))"

text \<open>
  A keymap of the shape a user may define (as \<open>Keymaps.US_MAC\<close> is derived from the default
  one): it puts \<open><\<close> on the first level and keeps the shifted sequence of the US
  layout for it, so the key is in both character tables.
\<close>

definition custom_keymap :: Keymap where
  "custom_keymap = \<lparr> name = js ''custom'', allowFallback = False, modifiers = ModifierKeysyms,
      control = ControlKeysyms, printable = [(js ''<'', Num 0x3c)],
      combined = [(js ''<'', Some [Num 0xffe1, Num 0x2c])] \<rparr>"

section \<open>commands.ts\<close>

subsection \<open>Commands and their arguments\<close>

text \<open>
  The methods of \<open>Client\<close>, and the values that are passed to them: a string, a list of
  keys (each a name or a keysym code, \<open>KeymapKey\<close>), an integer (\<open>SignedInt\<close>,
  \<open>UnsignedInt\<close>) or a number that need not be an integer (\<open>ValidNumber\<close>; a real here,
  \<open>NaN\<close> and the infinities apart).
\<close>

datatype client_method =
    KeysPress | KeysDown | KeysUp | Type | MouseClick | MouseDoubleClick | MouseButtonDown
  | MouseButtonUp | Scroll | MouseMove | CaptureScreen | CaptureScreenToFile | Pause
  | Disconnect

datatype keyref = KeyName jsstring | KeyCode jsval

datatype arg = StrArg jsstring | KeysArg "keyref list" | IntArg int | NumArg real

type_synonym Command = "client_method \<times> arg list"

record CommandInfo =
  cmd_desc :: string
  cmd_method :: client_method
  cmd_params :: "(jsstring \<Rightarrow> jsstring \<Rightarrow> error + arg) list"

subsection \<open>Argument parsers\<close>

text \<open>\<open>value.indexOf(c)\<close> for a one-character string \<open>c\<close>: the first index, or \<open>-1\<close>.\<close>

fun indexOf :: "jschar \<Rightarrow> jsstring \<Rightarrow> int" where
  "indexOf c [] = - 1"
| "indexOf c (x # xs) =
     (if x = c then 0 else (let i = indexOf c xs in if i < 0 then - 1 else i + 1))"

definition negToInf :: "int \<Rightarrow> enat" where
  "negToInf n = (if n < 0 then \<infinity> else enat (nat n))"

text \<open>
  \<open>value.split(separator)\<close> for a one-character separator: the pieces between its
  occurrences; the empty string gives one empty piece.
\<close>

fun js_split :: "jschar \<Rightarrow> jsstring \<Rightarrow> jsstring list" where
  "js_split sep [] = [[]]"
| "js_split sep (x # xs) =
     (if x = sep then [] # js_split sep xs
      else (case js_split sep xs of [] \<Rightarrow> [[x]] | s # ss \<Rightarrow> (x # s) # ss))"

text \<open>The callback of \<open>reduce\<close> in \<open>Keystroke\<close>.\<close>

definition merge_key :: "jschar \<Rightarrow> jsstring list \<Rightarrow> jsstring \<Rightarrow> jsstring list" where
  "merge_key separator acc key =
     (if acc \<noteq> [] \<and> last acc = [] then butlast acc @ [separator # key] else acc @ [key])"

definition Keystroke :: "jsstring \<Rightarrow> jsstring list" where
  "Keystroke value =
     (let separator = (if negToInf (indexOf 0x2B value) < negToInf (indexOf 0x2D value)
                       then 0x2B else 0x2D)
      in foldl (merge_key separator) [] (js_split separator value))"

text \<open>
  The keystroke parser as the specification words it, to be compared with \<open>Keystroke\<close>:
  the separator is whichever of \<open>+\<close> and \<open>-\<close> comes first in the string (\<open>-\<close> when
  neither occurs); the pieces are read from left to right, and an empty piece together with
  the piece after it becomes one key, the separator followed by that piece.
\<close>

definition spec_separator :: "jsstring \<Rightarrow> jschar" where
  "spec_separator s =
     (case find (\<lambda>c. c = 0x2B \<or> c = 0x2D) s of None \<Rightarrow> 0x2D | Some c \<Rightarrow> c)"

fun spec_collapse :: "jschar \<Rightarrow> jsstring list \<Rightarrow> jsstring list" where
  "spec_collapse sep [] = []"
| "spec_collapse sep [key] = [key]"
| "spec_collapse sep ([] # key # rest) = (sep # key) # spec_collapse sep rest"
| "spec_collapse sep ((c # cs) # key # rest) = (c # cs) # spec_collapse sep (key # rest)"

text \<open>
  \<open>\d\<close> is an ASCII digit. \<open>Number(value)\<close> of a string of decimal digits with an
  optional minus sign is the integer it denotes.
\<close>

definition is_digit :: "jschar \<Rightarrow> bool" where
  "is_digit c = (0x30 \<le> c \<and> c \<le> 0x39)"

definition decimal :: "jsstring \<Rightarrow> int" where
  "decimal ds = int (digits_value 10 ds)"

definition UnsignedInt :: "jsstring \<Rightarrow> jsstring \<Rightarrow> error + arg" where
  "UnsignedInt value command =
     (if value \<noteq> [] \<and> list_all is_digit value then Inr (IntArg (decimal value))
      else Inl (INVALID_ARGUMENT command))"

definition SignedInt :: "jsstring \<Rightarrow> jsstring \<Rightarrow> error + arg" where
  "SignedInt value command =
     (if take 1 value = js ''-'' \<and> drop 1 value \<noteq> [] \<and> list_all is_digit (drop 1 value)
      then Inr (IntArg (- decimal (drop 1 value)))
      else if value \<noteq> [] \<and> list_all is_digit value then Inr (IntArg (decimal value))
      else Inl (INVALID_ARGUMENT command))"

text \<open>
  \<open>Number(value)\<close> for an arbitrary string is a parameter \<open>num\<close> of the parser: \<open>None\<close>
  stands for \<open>NaN\<close>.
\<close>

definition ValidNumber :: "(jsstring \<Rightarrow> real option) \<Rightarrow> jsstring \<Rightarrow> jsstring \<Rightarrow> error + arg" where
  "ValidNumber num value command =
     (case num value of None \<Rightarrow> Inl (INVALID_ARGUMENT command) | Some n \<Rightarrow> Inr (NumArg n))"

definition String_param :: "jsstring \<Rightarrow> jsstring \<Rightarrow> error + arg" where
  "String_param value command = Inr (StrArg value)"

definition Keystroke_param :: "jsstring \<Rightarrow> jsstring \<Rightarrow> error + arg" where
  "Keystroke_param value command = Inr (KeysArg (map KeyName (Keystroke value)))"

subsection \<open>The registry\<close>

definition Commands :: "(jsstring \<Rightarrow> real option) \<Rightarrow> (jsstring \<times> CommandInfo) list" where
  "Commands num =
     [(js ''key'',
         \<lparr> cmd_desc = ''Press <keystroke> (keydown and keyup).'',
           cmd_method = KeysPress, cmd_params = [Keystroke_param] \<rparr>),
      (js ''keydown'',
         \<lparr> cmd_desc = ''Hold down <keystroke>.'', cmd_method = KeysDown, cmd_params = [Keystroke_param] \<rparr>),
      (js ''keyup'',
         \<lparr> cmd_desc = ''Release <keystroke>.'', cmd_method = KeysUp, cmd_params = [Keystroke_param] \<rparr>),
      (js ''type'',
         \<lparr> cmd_desc = ''Type <text> as if you had typed it.'', cmd_method = Type, cmd_params = [String_param] \<rparr>),
      (js ''move'',
         \<lparr> cmd_desc = ''Move the mouse cursor to <X> <Y> coordinates.'',
           cmd_method = MouseMove, cmd_params = [UnsignedInt, UnsignedInt] \<rparr>),
      (js ''mousemove'',
         \<lparr> cmd_desc = ''Alias for move.'', cmd_method = MouseMove, cmd_params = [UnsignedInt, UnsignedInt] \<rparr>),
      (js ''click'',
         \<lparr> cmd_desc = ''Send a mouse <button> click (mousedown followed by mouseup).'',
           cmd_method = MouseClick, cmd_params = [String_param] \<rparr>),
      (js ''doubleclick'',
         \<lparr> cmd_desc = ''Send a mouse <button> double-click.'',
           cmd_method = MouseClick, cmd_params = [String_param] \<rparr>),
      (js ''mousedown'',
         \<lparr> cmd_desc = ''Hold down mouse <button>.'', cmd_method = MouseButtonDown, cmd_params = [String_param] \<rparr>),
      (js ''mouseup'',
         \<lparr> cmd_desc = ''Release mouse <button>.'', cmd_method = MouseButtonUp, cmd_params = [String_param] \<rparr>),
      (js ''scroll'',
         \<lparr> cmd_desc = ''Scroll number of <lines> up (positive number) or down (negative number).'',
           cmd_method = Scroll, cmd_params = [SignedInt] \<rparr>),
      (js ''capture'',
         \<lparr> cmd_desc = ''Save current screen as <file>.'',
           cmd_method = CaptureScreenToFile, cmd_params = [String_param] \<rparr>),
      (js ''pause'',
         \<lparr> cmd_desc = ''Wait <seconds> before sending next command.'',
           cmd_method = Pause, cmd_params = [ValidNumber num] \<rparr>)]"

subsection \<open>parseScriptToWords\<close>

text \<open>
  One step of \<open>regex.exec(input)\<close> for
  \<^verbatim>\<open>/^#[^\n]*\n|[^\\"\s]+|\s+(?:#[^\n]*)?|"|\\./gs\<close>
  at the current position: the first alternative that matches there, with the match and the
  rest of the input. \<open>start\<close> says that the position is 0, where alone \<open>^\<close> matches (there
  is no \<open>m\<close> flag). Every quantifier is greedy and is followed by nothing that could make
  it give characters back, except the \<open>\n\<close> of the first alternative, which needs a
  newline somewhere after the \<open>#\<close>.
\<close>

definition is_plain :: "jschar \<Rightarrow> bool" where
  "is_plain c = (c \<noteq> 0x5C \<and> c \<noteq> 0x22 \<and> \<not> is_space c)"

definition not_newline :: "jschar \<Rightarrow> bool" where
  "not_newline c = (c \<noteq> 0x0A)"

definition match_here :: "bool \<Rightarrow> jsstring \<Rightarrow> (jsstring \<times> jsstring) option" where
  "match_here start input =
     (case input of
        [] \<Rightarrow> None
      | c # cs \<Rightarrow>
          if start \<and> c = 0x23 \<and> dropWhile not_newline cs \<noteq> []
          then Some (c # takeWhile not_newline cs @ [0x0A], drop 1 (dropWhile not_newline cs))
          else if is_plain c
          then Some (takeWhile is_plain input, dropWhile is_plain input)
          else if is_space c
          then (let ws = takeWhile is_space input; rest = dropWhile is_space input
                in if take 1 rest = [0x23]
                   then Some (ws @ takeWhile not_newline rest, dropWhile not_newline rest)
                   else Some (ws, rest))
          else if c = 0x22 then Some ([c], cs)
          else if c = 0x5C
          then (case cs of [] \<Rightarrow> None | d # ds \<Rightarrow> Some ([c, d], ds))
          else None)"

text \<open>
  \<open>regex.exec\<close> with the \<open>g\<close> flag searches from \<open>lastIndex\<close> on: a position where nothing
  matches is skipped (this happens only for a backslash that ends the input).
\<close>

fun regex_exec :: "bool \<Rightarrow> jsstring \<Rightarrow> (jsstring \<times> jsstring) option" where
  "regex_exec start [] = None"
| "regex_exec start (c # cs) =
     (case match_here start (c # cs) of
        Some r \<Rightarrow> Some r
      | None \<Rightarrow> regex_exec False cs)"

text \<open>\<open>words[words.length - 1] += s\<close>.\<close>

definition append_last :: "jsstring list \<Rightarrow> jsstring \<Rightarrow> jsstring list" where
  "append_last words s = butlast words @ [last words @ s]"

text \<open>The body of the loop, for one match: the new \<open>words\<close> and \<open>quoted\<close>.\<close>

definition word_step :: "jsstring list \<times> bool \<Rightarrow> jsstring \<Rightarrow> jsstring list \<times> bool" where
  "word_step st match =
     (let words = fst st; quoted = snd st
      in if take 1 match = [0x5C] then (append_last words (take 1 (drop 1 match)), quoted)
         else if match = [0x22] then (words, \<not> quoted)
         else if quoted then (append_last words match, quoted)
         else
           let trimmed = dropWhile is_space match
           in if trimmed = [] then (words @ [[]], quoted)
              else if take 1 trimmed \<noteq> [0x23] then (append_last words trimmed, quoted)
              else (words, quoted))"

text \<open>Every match is at least one character long, so the loop ends.\<close>

lemma match_here_shorter:
  "match_here start input = Some (m, rest) \<Longrightarrow> length rest < length input"
proof (cases input)
  case Nil
  then show "match_here start input = Some (m, rest) \<Longrightarrow> ?thesis"
    by (simp add: match_here_def)
next
  case (Cons c cs)
  have d: "length (dropWhile P cs) \<le> length cs" for P :: "jschar \<Rightarrow> bool"
    by (rule length_dropWhile_le)
  have dd: "length (dropWhile P (dropWhile Q cs)) \<le> length cs"
    for P Q :: "jschar \<Rightarrow> bool"
    using length_dropWhile_le [of P "dropWhile Q cs"] length_dropWhile_le [of Q cs]
    by linarith
  assume "match_here start input = Some (m, rest)"
  then show ?thesis
    using d [of not_newline] d [of is_plain] d [of is_space] dd [of not_newline is_space]
    by (auto simp: match_here_def Cons Let_def less_Suc_eq_le
        split: if_splits list.splits)
qed

lemma regex_exec_shorter:
  "regex_exec start input = Some (m, rest) \<Longrightarrow> length rest < length input"
proof (induction input arbitrary: start)
  case Nil
  then show ?case by simp
next
  case (Cons c cs)
  show ?case
  proof (cases "match_here start (c # cs)")
    case None
    with Cons.prems have "regex_exec False cs = Some (m, rest)" by simp
    from Cons.IH [OF this] show ?thesis by simp
  next
    case (Some r)
    with Cons.prems have "match_here start (c # cs) = Some (m, rest)" by simp
    then show ?thesis by (rule match_here_shorter)
  qed
qed

function words_loop :: "bool \<Rightarrow> jsstring \<Rightarrow> jsstring list \<times> bool \<Rightarrow> jsstring list \<times> bool" where
  "words_loop start input st =
     (case regex_exec start input of
        None \<Rightarrow> st
      | Some (match, rest) \<Rightarrow> words_loop False rest (word_step st match))"
  by pat_completeness auto
termination
  by (relation "measure (\<lambda>(start, input, st). length input)")
     (auto dest: regex_exec_shorter)

text \<open>The result \<open>{ words, unclosed }\<close> as a pair.\<close>

definition parseScriptToWords :: "jsstring \<Rightarrow> jsstring list \<times> bool" where
  "parseScriptToWords input = words_loop True input ([[]], False)"

subsection \<open>parseCommands\<close>

text \<open>
  \<open>parseCommands\<close> takes an array and shifts words off an array, so arrays live in a
  store: an address is a number, the addresses below \<open>fresh\<close> are in use.
\<close>

record store =
  arrays :: "nat \<Rightarrow> jsstring list"
  fresh :: nat

text \<open>\<open>[...words]\<close>: a new array with the same elements.\<close>

definition copy_array :: "nat \<Rightarrow> store \<Rightarrow> nat \<times> store" where
  "copy_array a s =
     (fresh s, s\<lparr> arrays := (arrays s)(fresh s := arrays s a), fresh := Suc (fresh s) \<rparr>)"

text \<open>\<open>words.shift()\<close>: removes the first element and returns it (\<open>undefined\<close> if none).\<close>

definition shift :: "nat \<Rightarrow> store \<Rightarrow> jsstring option \<times> store" where
  "shift a s =
     (case arrays s a of
        [] \<Rightarrow> (None, s)
      | w # ws \<Rightarrow> (Some w, s\<lparr> arrays := (arrays s)(a := ws) \<rparr>))"

text \<open>
  \<open>info.params.map(parse => parse(words.shift()!, cmd))\<close>. The array cannot be empty
  here, since \<open>parseCommands\<close> has compared its length with the number of parameters.
\<close>

fun map_params ::
  "(jsstring \<Rightarrow> jsstring \<Rightarrow> error + arg) list \<Rightarrow> jsstring \<Rightarrow> nat \<Rightarrow> store
    \<Rightarrow> (error + arg list) \<times> store" where
  "map_params [] cmd a s = (Inr [], s)"
| "map_params (parse # ps) cmd a s =
     (case shift a s of
        (None, s1) \<Rightarrow> (Inl TypeError, s1)
      | (Some w, s1) \<Rightarrow>
          (case parse w cmd of
             Inl e \<Rightarrow> (Inl e, s1)
           | Inr v \<Rightarrow>
               (case map_params ps cmd a s1 of
                  (Inl e, s2) \<Rightarrow> (Inl e, s2)
                | (Inr vs, s2) \<Rightarrow> (Inr (v # vs), s2))))"

lemma shift_length:
  "shift a s = (Some w, s1) \<Longrightarrow> Suc (length (arrays s1 a)) = length (arrays s a)"
  by (auto simp: shift_def split: list.splits)

lemma map_params_length:
  "map_params ps cmd a s = (r, s1) \<Longrightarrow> length (arrays s1 a) \<le> length (arrays s a)"
proof (induction ps arbitrary: s r s1)
  case Nil
  then show ?case by simp
next
  case (Cons parse ps)
  show ?case
  proof (cases "arrays s a")
    case Nil
    with Cons.prems show ?thesis by (simp add: shift_def)
  next
    case (Cons w ws)
    let ?s1 = "s\<lparr> arrays := (arrays s)(a := ws) \<rparr>"
    have sh: "shift a s = (Some w, ?s1)" by (simp add: shift_def Cons)
    show ?thesis
    proof (cases "parse w cmd")
      case (Inl e)
      with Cons.prems sh Cons show ?thesis by auto
    next
      case (Inr v)
      obtain r2 s2 where m: "map_params ps cmd a ?s1 = (r2, s2)" by (cases "map_params ps cmd a ?s1")
      from Cons.IH [OF m] have "length (arrays s2 a) \<le> length ws" by simp
      moreover from Cons.prems sh Inr m have "s1 = s2" by (auto split: sum.splits)
      ultimately show ?thesis using Cons by simp
    qed
  qed
qed

function parse_loop ::
  "(jsstring \<times> CommandInfo) list \<Rightarrow> nat \<Rightarrow> Command list \<Rightarrow> store
    \<Rightarrow> (error + Command list) \<times> store" where
  "parse_loop tbl words cmds s =
     (if length (arrays s words) > 0
      then (case shift words s of
              (None, s1) \<Rightarrow> (Inl TypeError, s1)
            | (Some cmd, s1) \<Rightarrow>
                (case map_of tbl cmd of
                   None \<Rightarrow> (Inl (UNKNOWN cmd), s1)
                 | Some info \<Rightarrow>
                     if length (arrays s1 words) < length (cmd_params info)
                     then (Inl (INVALID_ARGUMENT cmd), s1)
                     else (case map_params (cmd_params info) cmd words s1 of
                             (Inl e, s2) \<Rightarrow> (Inl e, s2)
                           | (Inr ps, s2) \<Rightarrow>
                               parse_loop tbl words (cmds @ [(cmd_method info, ps)]) s2)))
      else (Inr cmds, s))"
  by pat_completeness auto
termination
proof (relation "measure (\<lambda>(tbl, words, cmds, s). length (arrays s words))", goal_cases)
  case 1
  show ?case by simp
next
  case (2 tbl words cmds s x1 s1 cmd info x2 s2 ps)
  from 2(2,3) have "shift words s = (Some cmd, s1)" by simp
  from shift_length [OF this] have "length (arrays s1 words) < length (arrays s words)" by simp
  moreover from 2(6,7) have "map_params (cmd_params info) cmd words s1 = (Inr ps, s2)" by simp
  from map_params_length [OF this] have "length (arrays s2 words) \<le> length (arrays s1 words)" .
  ultimately show ?case by simp
qed

definition parseCommands ::
  "(jsstring \<Rightarrow> real option) \<Rightarrow> nat \<Rightarrow> store \<Rightarrow> (error + Command list) \<times> store" where
  "parseCommands num words s =
     (case copy_array words s of (words', s1) \<Rightarrow> parse_loop (Commands num) words' [] s1)"

text \<open>A new array with the given elements (an array literal, or the result of a call).\<close>

definition new_array :: "jsstring list \<Rightarrow> store \<Rightarrow> nat \<times> store" where
  "new_array ws s =
     (fresh s, s\<lparr> arrays := (arrays s)(fresh s := ws), fresh := Suc (fresh s) \<rparr>)"

definition parseScript ::
  "(jsstring \<Rightarrow> real option) \<Rightarrow> jsstring \<Rightarrow> store \<Rightarrow> (error + Command list) \<times> store" where
  "parseScript num content s =
     (case new_array (fst (parseScriptToWords content)) s of
        (words, s1) \<Rightarrow> parseCommands num words s1)"

text \<open>A store whose only array, at address 0, holds the given words.\<close>

definition store_of :: "jsstring list \<Rightarrow> store" where
  "store_of ws = \<lparr> arrays = (\<lambda>a. [])(0 := ws), fresh = 1 \<rparr>"

section \<open>client.ts\<close>

subsection \<open>The state of a client and its transport\<close>

text \<open>
  \<open>Guacamole.Mouse.State\<close>: the position and one flag per button. \<open>sendMouseState\<close> sends
  the whole record.
\<close>

record MouseState =
  mx :: int
  my :: int
  left :: bool
  middle :: bool
  right :: bool
  up :: bool
  down :: bool

text \<open>\<open>new Guacamole.Mouse.State()\<close>.\<close>

definition initial_MouseState :: MouseState where
  "initial_MouseState =
     \<lparr> mx = 0, my = 0, left = False, middle = False, right = False, up = False, down = False \<rparr>"

text \<open>
  What a client does to the world, in order: the calls of \<open>client.sendKeyEvent\<close>,
  \<open>client.sendMouseState\<close> and \<open>client.disconnect\<close>, each \<open>await delay(ms)\<close>, and the file
  written by \<open>FS.writeFile\<close>. A screenshot is known by the size of its canvas only.
\<close>

datatype image = Png int int

datatype event =
    SendKeyEvent int jsval
  | SendMouseState MouseState
  | Delay real
  | ClientDisconnect
  | WriteFile jsstring image

text \<open>
  The state that the methods read and change: whether \<open>tunnel.isConnected()\<close> holds, the
  one \<open>mouseState\<close> of the client, the size of the canvas that \<open>client.getDisplay().flatten()\<close>
  gives, and the events so far. The connection is the transport's; in this model only
  \<open>client.disconnect()\<close> changes it.
\<close>

record client_state =
  isConnected :: bool
  mouseState :: MouseState
  canvas :: "int \<times> int"
  events :: "event list"

text \<open>
  The arguments of \<open>createClient\<close>: the keyboard mapper (a keymap and the lower-casing it
  uses) and the options, merged with \<open>defaultOptions\<close>.
\<close>

record ClientOptions =
  toggleDelay :: real
  doubleClickDelay :: real
  delayBetweenKeys :: real

definition defaultOptions :: ClientOptions where
  "defaultOptions = \<lparr> toggleDelay = 12, doubleClickDelay = 100, delayBetweenKeys = 50 \<rparr>"

record Config =
  toLowerCase :: "jsstring \<Rightarrow> jsstring"
  keyboard :: Keymap
  options :: ClientOptions

text \<open>
  A method is a function from the state to a result, an error or a value, and the state it
  leaves. A method that throws leaves the state as it was at the throw: events already sent
  stay sent.
\<close>

type_synonym 'a action = "client_state \<Rightarrow> (error + 'a) \<times> client_state"

definition return :: "'a \<Rightarrow> 'a action" where
  "return v s = (Inr v, s)"

definition throw :: "error \<Rightarrow> 'a action" where
  "throw e s = (Inl e, s)"

definition bind :: "'a action \<Rightarrow> ('a \<Rightarrow> 'b action) \<Rightarrow> 'b action" where
  "bind m f s = (case m s of (Inl e, s1) \<Rightarrow> (Inl e, s1) | (Inr v, s1) \<Rightarrow> f v s1)"

definition seq :: "'a action \<Rightarrow> 'b action \<Rightarrow> 'b action" where
  "seq m n s = (case m s of (Inl e, s1) \<Rightarrow> (Inl e, s1) | (Inr v, s1) \<Rightarrow> n s1)"

definition emit :: "event \<Rightarrow> unit action" where
  "emit ev s = (Inr (), s\<lparr> events := events s @ [ev] \<rparr>)"

definition delay :: "real \<Rightarrow> unit action" where
  "delay ms = emit (Delay ms)"

subsection \<open>createClient\<close>

definition client_translateKey :: "Config \<Rightarrow> keyref \<Rightarrow> error + jsval" where
  "client_translateKey cfg keyOrCode =
     (case keyOrCode of
        KeyCode Undefined \<Rightarrow> Inl TypeError
      | KeyCode code \<Rightarrow> Inr code
      | KeyName key \<Rightarrow> translateKey (toLowerCase cfg) (keyboard cfg) key)"

definition mouseButtonToStateProp :: "(jsstring \<times> jsstring) list" where
  "mouseButtonToStateProp =
     [(js ''Left'', js ''left''), (js ''Middle'', js ''middle''), (js ''Right'', js ''right''),
      (js ''ScrollUp'', js ''up''), (js ''ScrollDown'', js ''down'')]"

definition mouseButtonProps :: "jsstring list" where
  "mouseButtonProps = map snd mouseButtonToStateProp"

text \<open>\<open>mouseState[prop] = value\<close> for one of the five button properties.\<close>

definition set_button :: "jsstring \<Rightarrow> bool \<Rightarrow> MouseState \<Rightarrow> MouseState" where
  "set_button prop value ms =
     (if prop = js ''left'' then ms\<lparr> left := value \<rparr>
      else if prop = js ''middle'' then ms\<lparr> middle := value \<rparr>
      else if prop = js ''right'' then ms\<lparr> right := value \<rparr>
      else if prop = js ''up'' then ms\<lparr> up := value \<rparr>
      else if prop = js ''down'' then ms\<lparr> down := value \<rparr>
      else ms)"

definition setMouseButtonState :: "jsstring \<Rightarrow> bool \<Rightarrow> unit action" where
  "setMouseButtonState button value s =
     (if button \<in> set (map fst mouseButtonToStateProp) \<or> button \<in> set mouseButtonProps
      then (Inr (),
            s\<lparr> mouseState :=
                 set_button (case map_of mouseButtonToStateProp button of
                               Some prop \<Rightarrow> prop | None \<Rightarrow> button)
                   value (mouseState s) \<rparr>)
      else (Inl AssertionError, s))"

definition sendMouseState :: "unit action" where
  "sendMouseState s = emit (SendMouseState (mouseState s)) s"

definition CheckConnectedDecorator :: "'a action \<Rightarrow> 'a action" where
  "CheckConnectedDecorator func s =
     (if \<not> isConnected s then (Inl NOT_CONNECTED, s) else func s)"

text \<open>
  The methods of \<open>self\<close>. \<open>decorateMethods\<close> replaces each of them in \<open>self\<close> by its
  decorated version, so that a method called through \<open>self\<close> from another method is checked
  again; each definition below is the decorated method. The key arguments are the list
  that \<open>unifyVarArgs\<close> gives.
\<close>

fun sendKeyEvents :: "Config \<Rightarrow> int \<Rightarrow> keyref list \<Rightarrow> unit action" where
  "sendKeyEvents cfg pressed [] = return ()"
| "sendKeyEvents cfg pressed (key # keys) =
     (case client_translateKey cfg key of
        Inl e \<Rightarrow> throw e
      | Inr keysym \<Rightarrow> seq (emit (SendKeyEvent pressed keysym)) (sendKeyEvents cfg pressed keys))"

definition keysDown :: "Config \<Rightarrow> keyref list \<Rightarrow> unit action" where
  "keysDown cfg keys = CheckConnectedDecorator (sendKeyEvents cfg 1 keys)"

definition keysUp :: "Config \<Rightarrow> keyref list \<Rightarrow> unit action" where
  "keysUp cfg keys = CheckConnectedDecorator (sendKeyEvents cfg 0 keys)"

definition keysPress :: "Config \<Rightarrow> keyref list \<Rightarrow> unit action" where
  "keysPress cfg keys =
     CheckConnectedDecorator
       (seq (keysDown cfg keys)
         (seq (if toggleDelay (options cfg) > 0 then delay (toggleDelay (options cfg))
               else return ())
           (keysUp cfg (rev keys))))"

fun type_loop :: "Config \<Rightarrow> jsstring \<Rightarrow> unit action" where
  "type_loop cfg [] = return ()"
| "type_loop cfg (c # text) =
     (case translateChar (toLowerCase cfg) (keyboard cfg) [c] of
        Inl e \<Rightarrow> throw e
      | Inr keysyms \<Rightarrow>
          seq (keysDown cfg (map KeyCode keysyms))
            (seq (delay (toggleDelay (options cfg)))
              (seq (keysUp cfg (map KeyCode (rev keysyms)))
                (seq (if text \<noteq> [] then delay (delayBetweenKeys (options cfg)) else return ())
                  (type_loop cfg text)))))"

definition type :: "Config \<Rightarrow> jsstring \<Rightarrow> unit action" where
  "type cfg text = CheckConnectedDecorator (type_loop cfg text)"

definition mouseButtonDown :: "Config \<Rightarrow> jsstring \<Rightarrow> unit action" where
  "mouseButtonDown cfg button =
     CheckConnectedDecorator (seq (setMouseButtonState button True) sendMouseState)"

definition mouseButtonUp :: "Config \<Rightarrow> jsstring \<Rightarrow> unit action" where
  "mouseButtonUp cfg button =
     CheckConnectedDecorator (seq (setMouseButtonState button False) sendMouseState)"

text \<open>
  The loop of \<open>mouseClick\<close> and the loop of \<open>scroll\<close>, which differ in the delay between two
  repeats only (\<open>gap\<close>): \<open>while (count-- > 0) { ... if (count > 0) await delay(gap) }\<close>.
\<close>

function click_loop :: "Config \<Rightarrow> jsstring \<Rightarrow> real \<Rightarrow> int \<Rightarrow> unit action" where
  "click_loop cfg button gap count =
     (if count > 0
      then seq (mouseButtonDown cfg button)
             (seq (delay (toggleDelay (options cfg)))
               (seq (mouseButtonUp cfg button)
                 (seq (if count - 1 > 0 then delay gap else return ())
                   (click_loop cfg button gap (count - 1)))))
      else return ())"
  by pat_completeness auto
termination
  by (relation "measure (\<lambda>(cfg, button, gap, count). nat count)") auto

definition mouseClick :: "Config \<Rightarrow> jsstring \<Rightarrow> int \<Rightarrow> keyref list \<Rightarrow> unit action" where
  "mouseClick cfg button count mods =
     CheckConnectedDecorator
       (seq (keysDown cfg mods)
         (seq (click_loop cfg button (doubleClickDelay (options cfg)) count)
           (keysUp cfg mods)))"

definition mouseDoubleClick :: "Config \<Rightarrow> jsstring \<Rightarrow> unit action" where
  "mouseDoubleClick cfg button = CheckConnectedDecorator (mouseClick cfg button 2 [])"

definition scroll :: "Config \<Rightarrow> int \<Rightarrow> unit action" where
  "scroll cfg lines =
     CheckConnectedDecorator
       (let button = (if lines > 0 then js ''ScrollUp'' else js ''ScrollDown'');
            count = \<bar>lines\<bar>
        in click_loop cfg button (toggleDelay (options cfg)) count)"

definition mouseMove :: "Config \<Rightarrow> int \<Rightarrow> int \<Rightarrow> unit action" where
  "mouseMove cfg x y =
     CheckConnectedDecorator
       (if \<not> x \<ge> 0 then throw AssertionError
        else if \<not> y \<ge> 0 then throw AssertionError
        else seq (\<lambda>s. (Inr (), s\<lparr> mouseState := (mouseState s)\<lparr> mx := x, my := y \<rparr> \<rparr>))
               sendMouseState)"

definition captureScreen :: "Config \<Rightarrow> image action" where
  "captureScreen cfg =
     CheckConnectedDecorator
       (\<lambda>s. if fst (canvas s) = 0 \<or> snd (canvas s) = 0 then (Inl CANVAS_NOT_INITIALIZED, s)
            else (Inr (Png (fst (canvas s)) (snd (canvas s))), s))"

definition captureScreenToFile :: "Config \<Rightarrow> jsstring \<Rightarrow> unit action" where
  "captureScreenToFile cfg filename =
     CheckConnectedDecorator
       (bind (captureScreen cfg) (\<lambda>png. emit (WriteFile filename png)))"

definition pause :: "Config \<Rightarrow> real \<Rightarrow> unit action" where
  "pause cfg seconds = CheckConnectedDecorator (delay (seconds * 1000))"

definition disconnect :: "Config \<Rightarrow> unit action" where
  "disconnect cfg =
     CheckConnectedDecorator
       (\<lambda>s. (Inr (), s\<lparr> isConnected := False, events := events s @ [ClientDisconnect] \<rparr>))"

subsection \<open>interpretCommands\<close>

text \<open>
  \<open>client[cmd](...args)\<close>: the method named by the command, applied to the arguments. A
  missing argument is \<open>undefined\<close> and takes its default (\<open>count = 1\<close>, \<open>modifiers = []\<close>).
  A screenshot that is returned is dropped. The decorated method checks the connection
  before it looks at any argument; what JavaScript does with an argument list that is not
  of the method's TypeScript signature is not modelled further (\<open>TypeError\<close>).
\<close>

definition drop_result :: "'a action \<Rightarrow> unit action" where
  "drop_result m = bind m (\<lambda>r. return ())"

definition ill_typed :: "unit action" where
  "ill_typed = CheckConnectedDecorator (throw TypeError)"

definition apply_method :: "Config \<Rightarrow> client_method \<Rightarrow> arg list \<Rightarrow> unit action" where
  "apply_method cfg m args =
     (case m of
        KeysPress \<Rightarrow> (case args of [KeysArg keys] \<Rightarrow> keysPress cfg keys | _ \<Rightarrow> ill_typed)
      | KeysDown \<Rightarrow> (case args of [KeysArg keys] \<Rightarrow> keysDown cfg keys | _ \<Rightarrow> ill_typed)
      | KeysUp \<Rightarrow> (case args of [KeysArg keys] \<Rightarrow> keysUp cfg keys | _ \<Rightarrow> ill_typed)
      | Type \<Rightarrow> (case args of [StrArg text] \<Rightarrow> type cfg text | _ \<Rightarrow> ill_typed)
      | MouseClick \<Rightarrow>
          (case args of
             [StrArg button] \<Rightarrow> mouseClick cfg button 1 []
           | [StrArg button, IntArg count] \<Rightarrow> mouseClick cfg button count []
           | [StrArg button, IntArg count, KeysArg mods] \<Rightarrow> mouseClick cfg button count mods
           | _ \<Rightarrow> ill_typed)
      | MouseDoubleClick \<Rightarrow>
          (case args of [StrArg button] \<Rightarrow> mouseDoubleClick cfg button | _ \<Rightarrow> ill_typed)
      | MouseButtonDown \<Rightarrow>
          (case args of [StrArg button] \<Rightarrow> mouseButtonDown cfg button | _ \<Rightarrow> ill_typed)
      | MouseButtonUp \<Rightarrow>
          (case args of [StrArg button] \<Rightarrow> mouseButtonUp cfg button | _ \<Rightarrow> ill_typed)
      | Scroll \<Rightarrow> (case args of [IntArg lines] \<Rightarrow> scroll cfg lines | _ \<Rightarrow> ill_typed)
      | MouseMove \<Rightarrow>
          (case args of [IntArg x, IntArg y] \<Rightarrow> mouseMove cfg x y | _ \<Rightarrow> ill_typed)
      | CaptureScreen \<Rightarrow>
          (case args of [] \<Rightarrow> drop_result (captureScreen cfg) | _ \<Rightarrow> ill_typed)
      | CaptureScreenToFile \<Rightarrow>
          (case args of
             [StrArg filename] \<Rightarrow> captureScreenToFile cfg filename | _ \<Rightarrow> ill_typed)
      | Pause \<Rightarrow>
          (case args of
             [NumArg seconds] \<Rightarrow> pause cfg seconds
           | [IntArg seconds] \<Rightarrow> pause cfg (of_int seconds)
           | _ \<Rightarrow> ill_typed)
      | Disconnect \<Rightarrow> (case args of [] \<Rightarrow> disconnect cfg | _ \<Rightarrow> ill_typed))"

fun interpretCommands :: "Config \<Rightarrow> Command list \<Rightarrow> unit action" where
  "interpretCommands cfg [] = return ()"
| "interpretCommands cfg ((cmd, args) # commands) =
     seq (apply_method cfg cmd args) (interpretCommands cfg commands)"

subsection \<open>A client to run examples on\<close>

text \<open>
  A client with the default options (the keymap plays no part in what the mouse methods
  do), connected, with a new mouse state and no event sent yet.
\<close>

definition example_config :: Config where
  "example_config =
     \<lparr> toLowerCase = toLowerCase_ascii, keyboard = DIRECT, options = defaultOptions \<rparr>"

definition connected_state :: client_state where
  "connected_state =
     \<lparr> isConnected = True, mouseState = initial_MouseState, canvas = (0, 0), events = [] \<rparr>"

section \<open>Properties of the keyboard mapper\<close>

lemma unat_of_char_word: "unat (of_char e :: 16 word) = of_char e"
proof -
  have "(of_char e :: 16 word) = of_nat (of_char e)"
    by (simp add: of_nat_of_char)
  then have "unat (of_char e :: 16 word) = (of_char e :: nat) mod 2 ^ 16"
    by (simp only: unat_of_nat) simp
  moreover have "(of_char e :: nat) < 256"
    by (metis of_char_mod_256 mod_less_divisor zero_less_numeral)
  ultimately show ?thesis by simp
qed

lemma js_eq_iff: "js a = js b \<longleftrightarrow> a = b"
proof -
  have "inj (of_char :: char \<Rightarrow> 16 word)"
  proof (rule injI)
    fix c d :: char
    assume "(of_char c :: 16 word) = of_char d"
    then have "unat (of_char c :: 16 word) = unat (of_char d :: 16 word)" by simp
    then have "(of_char c :: nat) = of_char d" by (simp only: unat_of_char_word)
    then show "c = d" by simp
  qed
  then show ?thesis by (simp add: js_def inj_map_eq_map)
qed

lemma set_entries_Nil: "set_entries kf conv [] m = m"
  by (simp add: set_entries_def)

lemma set_entries_snoc:
  "set_entries kf conv (es @ [(k, v)]) m =
     (case conv v of None \<Rightarrow> set_entries kf conv es m
      | Some w \<Rightarrow> (set_entries kf conv es m)(kf k \<mapsto> w))"
  by (simp add: set_entries_def split: option.splits)

lemma set_entries_absent:
  "\<forall>k v. (k, v) \<in> set es \<and> kf k = q \<longrightarrow> conv v = None \<Longrightarrow> set_entries kf conv es m q = m q"
proof (induction es rule: rev_induct)
  case Nil
  then show ?case by (simp add: set_entries_Nil)
next
  case (snoc e es)
  obtain k v where e: "e = (k, v)" by (cases e)
  from snoc.prems have rest: "\<forall>k v. (k, v) \<in> set es \<and> kf k = q \<longrightarrow> conv v = None"
    by auto
  from snoc.prems e have last: "kf k = q \<longrightarrow> conv v = None"
    by auto
  from snoc.IH [OF rest] last show ?case
    by (simp add: e set_entries_snoc split: option.splits)
qed

lemma set_entries_agree:
  "(k0, v0) \<in> set es \<Longrightarrow> kf k0 = q \<Longrightarrow> conv v0 = Some w
    \<Longrightarrow> \<forall>k v. (k, v) \<in> set es \<and> kf k = q \<longrightarrow> conv v = None \<or> conv v = Some w
    \<Longrightarrow> set_entries kf conv es m q = Some w"
proof (induction es rule: rev_induct)
  case Nil
  then show ?case by simp
next
  case (snoc e es)
  obtain k v where e: "e = (k, v)" by (cases e)
  from snoc.prems(4)
  have rest: "\<forall>k v. (k, v) \<in> set es \<and> kf k = q \<longrightarrow> conv v = None \<or> conv v = Some w"
    by auto
  from snoc.prems(4) e have last: "kf k = q \<longrightarrow> conv v = None \<or> conv v = Some w"
    by auto
  show ?case
  proof (cases "kf k = q \<and> conv v = Some w")
    case True
    then show ?thesis by (simp add: e set_entries_snoc)
  next
    case False
    with snoc.prems(1,2,3) e have "(k0, v0) \<in> set es" by auto
    from snoc.IH [OF this snoc.prems(2,3) rest] False last show ?thesis
      by (auto simp: e set_entries_snoc split: option.splits)
  qed
qed

lemma set_entries_present:
  assumes "distinct (map fst es)" "(k, v) \<in> set es" "conv v = Some w"
  shows "set_entries (\<lambda>a. a) conv es m k = Some w"
proof -
  have "\<forall>k' v'. (k', v') \<in> set es \<and> k' = k \<longrightarrow> conv v' = None \<or> conv v' = Some w"
  proof (intro allI impI)
    fix k' v'
    assume "(k', v') \<in> set es \<and> k' = k"
    with assms(1,2) have "v' = v" by (metis eq_key_imp_eq_value)
    with assms(3) show "conv v' = None \<or> conv v' = Some w" by simp
  qed
  with assms(2,3) show ?thesis
    by (intro set_entries_agree [where kf = "\<lambda>a. a" and ?k0.0 = k and ?v0.0 = v]) auto
qed

lemma set_set_prop: "set (set_prop k v ps) \<subseteq> insert (k, v) (set ps)"
  by (induction ps) auto

lemma set_prop_self: "(k, v) \<in> set (set_prop k v ps)"
  by (induction ps) auto

lemma set_prop_other: "(k', v') \<in> set ps \<Longrightarrow> k' \<noteq> k \<Longrightarrow> (k', v') \<in> set (set_prop k v ps)"
  by (induction ps) auto

lemma set_spread: "set (spread obj src) \<subseteq> set obj \<union> set src"
proof (induction src arbitrary: obj)
  case Nil
  then show ?case by (simp add: spread_def)
next
  case (Cons e src)
  obtain k v where e: "e = (k, v)" by (cases e)
  have "spread obj (e # src) = spread (set_prop k v obj) src"
    by (simp add: spread_def e)
  with Cons.IH [of "set_prop k v obj"] set_set_prop [of k v obj] e show ?case
    by auto
qed

lemma spread_Cons: "spread obj ((k, v) # src) = spread (set_prop k v obj) src"
  by (simp add: spread_def)

lemma spread_keeps:
  "(k, v) \<in> set obj \<union> set src \<Longrightarrow> \<forall>v'. (k, v') \<in> set obj \<union> set src \<longrightarrow> v' = v
    \<Longrightarrow> (k, v) \<in> set (spread obj src)"
proof (induction src arbitrary: obj)
  case Nil
  from Nil.prems(1) show ?case by (simp add: spread_def)
next
  case (Cons e src)
  obtain k1 v1 where e: "e = (k1, v1)" by (cases e)
  have mem: "(k, v) \<in> set (set_prop k1 v1 obj) \<union> set src"
  proof (cases "k1 = k")
    case True
    have "(k, v1) \<in> set obj \<union> set (e # src)" using True e by simp
    with Cons.prems(2) have "v1 = v" by blast
    with True set_prop_self [of k v obj] show ?thesis by simp
  next
    case False
    then have "(k, v) \<noteq> e" using e by auto
    with Cons.prems(1) have "(k, v) \<in> set obj \<or> (k, v) \<in> set src" by auto
    then show ?thesis
    proof
      assume "(k, v) \<in> set obj"
      from set_prop_other [OF this, of k1 v1] False show ?thesis by auto
    next
      assume "(k, v) \<in> set src"
      then show ?thesis by simp
    qed
  qed
  have uniq: "\<forall>v'. (k, v') \<in> set (set_prop k1 v1 obj) \<union> set src \<longrightarrow> v' = v"
  proof (intro allI impI)
    fix v'
    assume "(k, v') \<in> set (set_prop k1 v1 obj) \<union> set src"
    with set_set_prop [of k1 v1 obj] have "(k, v') \<in> set obj \<union> set (e # src)"
      using e by auto
    with Cons.prems(2) show "v' = v" by blast
  qed
  from Cons.IH [OF mem uniq] show ?case by (simp add: e spread_Cons)
qed

lemma keysMap_lookup:
  assumes inT: "(k0, w) \<in> set (control km @ modifiers km @ printable km)"
    and nn: "w \<noteq> Undefined" and lck: "lc k0 = q"
    and all: "list_all (\<lambda>(k, v). (k = k0 \<longrightarrow> v = w) \<and> (lc k = q \<longrightarrow> v = Undefined \<or> v = w))
                (control km @ modifiers km @ printable km)"
  shows "keysMap lc km q = Some w"
proof -
  let ?T = "set (control km) \<union> set (modifiers km) \<union> set (printable km)"
  let ?m1 = "spread [] (control km)"
  let ?m2 = "spread ?m1 (modifiers km)"
  let ?m3 = "spread ?m2 (printable km)"
  from all have same: "\<And>k v. (k, v) \<in> ?T \<Longrightarrow> k = k0 \<Longrightarrow> v = w"
    and coll: "\<And>k v. (k, v) \<in> ?T \<Longrightarrow> lc k = q \<Longrightarrow> v = Undefined \<or> v = w"
    unfolding list_all_iff by fastforce+
  have sub1: "set ?m1 \<subseteq> ?T"
    using set_spread [of "[]" "control km"] by auto
  have sub2: "set ?m2 \<subseteq> ?T"
    using set_spread [of ?m1 "modifiers km"] sub1 by blast
  have sub3: "set ?m3 \<subseteq> ?T"
    using set_spread [of ?m2 "printable km"] sub2 by blast
  have keep: "(k0, w) \<in> set obj \<union> set src \<Longrightarrow> set obj \<union> set src \<subseteq> ?T
                \<Longrightarrow> (k0, w) \<in> set (spread obj src)" for obj src
  proof (rule spread_keeps)
    assume a: "(k0, w) \<in> set obj \<union> set src" and s: "set obj \<union> set src \<subseteq> ?T"
    show "(k0, w) \<in> set obj \<union> set src" by (rule a)
    show "\<forall>v'. (k0, v') \<in> set obj \<union> set src \<longrightarrow> v' = w"
      using s same by blast
  qed
  from inT have "(k0, w) \<in> set (control km) \<or> (k0, w) \<in> set (modifiers km)
      \<or> (k0, w) \<in> set (printable km)" by simp
  then have in3: "(k0, w) \<in> set ?m3"
  proof (elim disjE)
    assume c: "(k0, w) \<in> set (control km)"
    have "(k0, w) \<in> set ?m1" by (rule keep) (use c in auto)
    then have "(k0, w) \<in> set ?m2" by (intro keep) (use sub1 in auto)
    then show ?thesis by (intro keep) (use sub2 in auto)
  next
    assume c: "(k0, w) \<in> set (modifiers km)"
    have "(k0, w) \<in> set ?m2" by (rule keep) (use c sub1 in auto)
    then show ?thesis by (intro keep) (use sub2 in auto)
  next
    assume c: "(k0, w) \<in> set (printable km)"
    show ?thesis by (rule keep) (use c sub2 in auto)
  qed
  have agree: "\<forall>k v. (k, v) \<in> set ?m3 \<and> lc k = q \<longrightarrow> not_null v = None \<or> not_null v = Some w"
  proof (intro allI impI)
    fix k v
    assume "(k, v) \<in> set ?m3 \<and> lc k = q"
    with sub3 have "(k, v) \<in> ?T" "lc k = q" by blast+
    from coll [OF this] show "not_null v = None \<or> not_null v = Some w"
      by (auto simp: not_null_def)
  qed
  have "not_null w = Some w" using nn by (simp add: not_null_def)
  from set_entries_agree [OF in3 lck this agree] show ?thesis
    by (simp add: keysMap_def)
qed

lemma keysMap_DIRECT_enter:
  "map_get (keysMap toLowerCase_ascii DIRECT) (js ''enter'') = Num 0xff0d"
proof -
  have "keysMap toLowerCase_ascii DIRECT (js ''enter'') = Some (Num 0xff0d)"
    by (rule keysMap_lookup [where ?k0.0 = "js ''Enter''"])
       (simp_all add: DIRECT_def ControlKeysyms_def ModifierKeysyms_def toLowerCase_ascii_def js_def)
  then show ?thesis by (simp add: map_get_def)
qed

lemma js_or_small:
  "0 \<le> a \<Longrightarrow> a < 2 ^ 31 \<Longrightarrow> 0 \<le> b \<Longrightarrow> b < 2 ^ 31 \<Longrightarrow> js_or a b = a OR b"
  by (simp add: js_or_def signed_take_bit_int_eq_self)

lemma keysymFromCodePoint_unit:
  "keysymFromCodePoint (uint (c :: jschar)) =
     Inr (if uint c \<le> 0x1F \<or> (0x7F \<le> uint c \<and> uint c \<le> 0x9F) then 0xFF00 OR uint c
          else if uint c \<le> 0xFF then uint c
          else 0x01000000 OR uint c)"
proof -
  have b: "0 \<le> uint c" "uint c < 2 ^ 16"
    using uint_lt2p [of c] by simp_all
  then have "js_or 0xff00 (uint c) = 0xff00 OR uint c"
    and "js_or 0x01000000 (uint c) = 0x01000000 OR uint c"
    by (simp_all add: js_or_small)
  with b show ?thesis
    by (simp add: keysymFromCodePoint_def isControlChar_def)
qed

lemma charsMap_plain:
  "c \<noteq> 0x0A \<Longrightarrow> c \<noteq> 0x20 \<Longrightarrow> c \<noteq> 0x09 \<Longrightarrow>
   charsMap lc km [c] =
     set_entries (\<lambda>k. k) (\<lambda>codes. codes) (combined km)
       (set_entries (\<lambda>k. k) (\<lambda>code. map_option (\<lambda>c. [c]) (not_null code)) (printable km) Map.empty)
       [c]"
  by (simp add: charsMap_def Let_def)

text \<open>
  C9. A key that begins with \<open>0x\<close> is never looked up: whatever the keymap (and the
  lower-casing) is, \<open>translateKey\<close> returns \<open>parseInt\<close> of the rest in radix 16 and raises
  no Unknown-key error. For \<open>0x\<close> and \<open>0xzz\<close> the result is \<open>NaN\<close>, a returned value and
  not an error; \<open>0x41\<close> gives 65.
\<close>

theorem translateKey_hex:
  "translateKey lc km (js ''0x'' @ rest) = Inr (parseInt rest 16)
   \<and> translateKey lc km (js ''0x'' @ rest) = translateKey lc' km' (js ''0x'' @ rest)
   \<and> translateKey lc km (js ''0x'') = Inr NaN
   \<and> translateKey lc km (js ''0xzz'') = Inr NaN
   \<and> translateKey lc km (js ''0x41'') = Inr (Num 65)"
proof -
  have gen: "translateKey lc km (js ''0x'' @ rest) = Inr (parseInt rest 16)" for lc km rest
    by (simp add: translateKey_def js_def)
  have "parseInt [] 16 = NaN"
    by (simp add: parseInt_def js_def)
  moreover have "parseInt (js ''zz'') 16 = NaN"
    by (simp add: parseInt_def js_def is_space_def is_digit_of_def digit_val_def)
  moreover have "parseInt (js ''41'') 16 = Num 65"
    by (simp add: parseInt_def js_def is_space_def is_digit_of_def digit_val_def digits_value_def)
  moreover have "js ''0x'' = js ''0x'' @ []" "js ''0xzz'' = js ''0x'' @ js ''zz''"
    "js ''0x41'' = js ''0x'' @ js ''41''"
    by (simp_all add: js_def)
  ultimately show ?thesis
    using gen by metis
qed

text \<open>
  C4, as stated, fails for the newline character: in \<open>Keymaps.DIRECT\<close> (fallback allowed)
  no table has the key \<open>\n\<close>, and \<open>translateChar\<close> returns the keysym of Enter,
  \<open>0xFF0D\<close>, from the fixed entry of the character map, not \<open>0xFF00 | 0x0A\<close>.
\<close>

theorem translateChar_newline_DIRECT:
  "allowFallback DIRECT
   \<and> [0x0A] \<notin> fst ` set (printable DIRECT) \<and> [0x0A] \<notin> fst ` set (combined DIRECT)
   \<and> [0x0A] \<notin> fst ` set (control DIRECT) \<and> [0x0A] \<notin> fst ` set (modifiers DIRECT)
   \<and> translateChar toLowerCase_ascii DIRECT [0x0A] = Inr [Num 0xFF0D]
   \<and> translateChar toLowerCase_ascii DIRECT [0x0A] \<noteq> Inr [Num (0xFF00 OR 0x0A)]"
proof -
  have t: "translateChar toLowerCase_ascii DIRECT [0x0A] = Inr [Num 0xFF0D]"
    by (simp add: translateChar_def charsMap_def Let_def keysMap_DIRECT_enter)
  have "[0x0A] \<notin> fst ` set (control DIRECT)"
    by (simp add: DIRECT_def ControlKeysyms_def js_def)
  moreover have "[0x0A] \<notin> fst ` set (modifiers DIRECT)"
    by (simp add: DIRECT_def ModifierKeysyms_def js_def)
  ultimately show ?thesis
    using t by (simp add: DIRECT_def)
qed

text \<open>
  C4, amended. For every character \<open>c\<close> other than newline, space and tab (which have
  fixed entries) that has no non-null entry in the printable and the combined table, when
  fallback is allowed, \<open>translateChar c\<close> is the single keysym computed from the code point
  \<open>n\<close> of \<open>c\<close>: \<open>0xFF00 | n\<close> if \<open>n \<le> 0x1F\<close> or \<open>0x7F \<le> n \<le> 0x9F\<close>; else \<open>n\<close> if
  \<open>n \<le> 0xFF\<close>; else \<open>0x01000000 | n\<close> (and \<open>n \<le> 0x10FFFF\<close> holds for a code unit). With
  \<open>Keymaps.DIRECT\<close>: \<open>\x01\<close> gives \<open>0xFF01\<close>, U+00E9 gives \<open>0x00E9\<close>, U+20AC gives
  \<open>0x010020AC\<close>.
\<close>

theorem translateChar_fallback:
  "(allowFallback km \<and> c \<noteq> 0x0A \<and> c \<noteq> 0x20 \<and> c \<noteq> 0x09
      \<and> (\<forall>v. ([c], v) \<in> set (printable km) \<longrightarrow> v = Undefined)
      \<and> (\<forall>cs. ([c], cs) \<in> set (combined km) \<longrightarrow> cs = None)
    \<longrightarrow> uint c \<le> 0x10FFFF
        \<and> translateChar lc km [c] =
            Inr [Num (if uint c \<le> 0x1F \<or> (0x7F \<le> uint c \<and> uint c \<le> 0x9F) then 0xFF00 OR uint c
                      else if uint c \<le> 0xFF then uint c
                      else 0x01000000 OR uint c)])
   \<and> translateChar lc DIRECT [0x01] = Inr [Num 0xFF01]
   \<and> translateChar lc DIRECT [0xE9] = Inr [Num 0x00E9]
   \<and> translateChar lc DIRECT [0x20AC] = Inr [Num 0x010020AC]"
proof -
  have gen: "translateChar lc km [c] =
            Inr [Num (if uint c \<le> 0x1F \<or> (0x7F \<le> uint c \<and> uint c \<le> 0x9F) then 0xFF00 OR uint c
                      else if uint c \<le> 0xFF then uint c
                      else 0x01000000 OR uint c)]"
    if fb: "allowFallback km" and c: "c \<noteq> 0x0A" "c \<noteq> 0x20" "c \<noteq> 0x09"
      and p: "\<forall>v. ([c], v) \<in> set (printable km) \<longrightarrow> v = Undefined"
      and co: "\<forall>cs. ([c], cs) \<in> set (combined km) \<longrightarrow> cs = None"
    for km c
  proof -
    have "\<forall>k v. (k, v) \<in> set (printable km) \<and> k = [c]
            \<longrightarrow> map_option (\<lambda>c. [c]) (not_null v) = None"
      using p by (auto simp: not_null_def)
    then have m1: "set_entries (\<lambda>k. k) (\<lambda>code. map_option (\<lambda>c. [c]) (not_null code))
                     (printable km) Map.empty [c] = None"
      by (simp add: set_entries_absent)
    have "\<forall>k v. (k, v) \<in> set (combined km) \<and> k = [c] \<longrightarrow> v = None"
      using co by blast
    then have "charsMap lc km [c] = None"
      using m1 c by (simp add: charsMap_plain set_entries_absent)
    with fb show ?thesis
      by (simp add: translateChar_def keysymFromCodePoint_unit)
  qed
  have "uint c \<le> 0x10FFFF"
    using uint_lt2p [of c] by simp
  moreover have "translateChar lc DIRECT [0x01] = Inr [Num 0xFF01]"
    using gen [of DIRECT "0x01"] by (simp add: DIRECT_def)
  moreover have "translateChar lc DIRECT [0xE9] = Inr [Num 0x00E9]"
    using gen [of DIRECT "0xE9"] by (simp add: DIRECT_def)
  moreover have "translateChar lc DIRECT [0x20AC] = Inr [Num 0x010020AC]"
    using gen [of DIRECT "0x20AC"] by (simp add: DIRECT_def)
  ultimately show ?thesis
    using gen [of km c] by blast
qed

text \<open>The amended C4 at the letter \<open>A\<close> in \<open>Keymaps.DIRECT\<close>.\<close>

theorem translateChar_fallback_witness:
  "allowFallback DIRECT \<and> printable DIRECT = [] \<and> combined DIRECT = []
   \<and> translateChar toLowerCase_ascii DIRECT [0x41] = Inr [Num 0x41]"
  using translateChar_fallback [of DIRECT "0x41" toLowerCase_ascii]
  by (simp add: DIRECT_def)

text \<open>
  C8, as stated, fails when a character is in both tables: the loop over \<open>combined\<close> runs
  after the loop over \<open>printable\<close> and \<open>Map.set\<close> overwrites, so the combined sequence is
  returned.
\<close>

theorem translateChar_combined_wins:
  "(js ''<'', Num 0x3c) \<in> set (printable custom_keymap)
   \<and> translateChar toLowerCase_ascii custom_keymap (js ''<'') = Inr [Num 0xffe1, Num 0x2c]
   \<and> translateChar toLowerCase_ascii custom_keymap (js ''<'') \<noteq> Inr [Num 0x3c]"
  by (simp add: translateChar_def charsMap_def Let_def custom_keymap_def js_def
      set_entries_def not_null_def)

text \<open>
  C8, amended. For every keymap (an object has each key once) and every character \<open>c\<close>
  other than newline, space and tab that has a non-null entry \<open>v\<close> in the printable
  table: if \<open>c\<close> has no non-null entry in the combined table, \<open>translateChar c\<close> returns
  the single code \<open>[v]\<close>; if it has one, \<open>translateChar c\<close> returns that combined
  sequence (the combined table takes precedence).
\<close>

theorem translateChar_tables:
  "distinct (map fst (printable km)) \<and> distinct (map fst (combined km))
     \<and> c \<noteq> 0x0A \<and> c \<noteq> 0x20 \<and> c \<noteq> 0x09
     \<and> ([c], v) \<in> set (printable km) \<and> v \<noteq> Undefined
   \<longrightarrow> ((\<forall>cs. ([c], cs) \<in> set (combined km) \<longrightarrow> cs = None)
          \<longrightarrow> translateChar lc km [c] = Inr [v])
       \<and> (\<forall>cs. ([c], Some cs) \<in> set (combined km) \<longrightarrow> translateChar lc km [c] = Inr cs)"
proof (intro impI conjI allI; elim conjE)
  assume dp: "distinct (map fst (printable km))"
    and c: "c \<noteq> 0x0A" "c \<noteq> 0x20" "c \<noteq> 0x09"
    and p: "([c], v) \<in> set (printable km)" and v: "v \<noteq> Undefined"
    and co: "\<forall>cs. ([c], cs) \<in> set (combined km) \<longrightarrow> cs = None"
  have m1: "set_entries (\<lambda>k. k) (\<lambda>code. map_option (\<lambda>c. [c]) (not_null code))
              (printable km) Map.empty [c] = Some [v]"
    by (rule set_entries_present
          [where conv = "\<lambda>code. map_option (\<lambda>c. [c]) (not_null code)" and v = v, OF dp p])
       (simp add: not_null_def v)
  have "\<forall>k v. (k, v) \<in> set (combined km) \<and> k = [c] \<longrightarrow> v = None"
    using co by blast
  then have "charsMap lc km [c] = Some [v]"
    using m1 c by (simp add: charsMap_plain set_entries_absent)
  then show "translateChar lc km [c] = Inr [v]"
    by (simp add: translateChar_def)
next
  fix cs
  assume dc: "distinct (map fst (combined km))"
    and c: "c \<noteq> 0x0A" "c \<noteq> 0x20" "c \<noteq> 0x09"
    and co: "([c], Some cs) \<in> set (combined km)"
  have "set_entries (\<lambda>k. k) (\<lambda>codes. codes) (combined km) m [c] = Some cs" for m
    by (rule set_entries_present [where conv = "\<lambda>codes. codes" and v = "Some cs", OF dc co])
       simp
  then have "charsMap lc km [c] = Some cs"
    using c by (simp add: charsMap_plain)
  then show "translateChar lc km [c] = Inr cs"
    by (simp add: translateChar_def)
qed

text \<open>The amended C8 at \<open><\<close>, without and with a combined entry.\<close>

theorem translateChar_tables_witness:
  "translateChar toLowerCase_ascii (custom_keymap \<lparr> combined := [] \<rparr>) (js ''<'') = Inr [Num 0x3c]
   \<and> translateChar toLowerCase_ascii custom_keymap (js ''<'') = Inr [Num 0xffe1, Num 0x2c]"
  using translateChar_tables [of "custom_keymap \<lparr> combined := [] \<rparr>" "0x3c" "Num 0x3c" toLowerCase_ascii]
    translateChar_tables [of custom_keymap "0x3c" "Num 0x3c" toLowerCase_ascii]
  by (simp add: custom_keymap_def js_def)


section \<open>Properties of the command parser\<close>

lemma negToInf_indexOf_Cons:
  "x \<noteq> c \<Longrightarrow> negToInf (indexOf c (x # xs)) = negToInf (indexOf c xs) + 1"
  by (auto simp: negToInf_def Let_def one_enat_def nat_add_distrib)

lemma enat_less_add1: "(a + 1 < b + 1) = (a < (b :: enat))"
  by (cases a; cases b) (simp_all add: one_enat_def)

lemma separator_spec:
  "(if negToInf (indexOf 0x2B s) < negToInf (indexOf 0x2D s) then 0x2B else 0x2D)
     = spec_separator s"
proof (induction s)
  case Nil
  show ?case by (simp add: spec_separator_def negToInf_def)
next
  case (Cons x xs)
  consider "x = 0x2B" | "x = 0x2D" | "x \<noteq> 0x2B" "x \<noteq> 0x2D" by blast
  then show ?case
  proof cases
    case 1
    then have "negToInf (indexOf 0x2B (x # xs)) = 0" by (simp add: negToInf_def zero_enat_def)
    moreover from 1 have "negToInf (indexOf 0x2D (x # xs)) = negToInf (indexOf 0x2D xs) + 1"
      by (intro negToInf_indexOf_Cons) simp
    ultimately show ?thesis using 1
      by (simp add: spec_separator_def)
  next
    case 2
    then have "negToInf (indexOf 0x2D (x # xs)) = 0" by (simp add: negToInf_def zero_enat_def)
    with 2 show ?thesis by (simp add: spec_separator_def)
  next
    case 3
    have a: "negToInf (indexOf 0x2B (x # xs)) = negToInf (indexOf 0x2B xs) + 1"
      using 3 by (intro negToInf_indexOf_Cons)
    have b: "negToInf (indexOf 0x2D (x # xs)) = negToInf (indexOf 0x2D xs) + 1"
      using 3 by (intro negToInf_indexOf_Cons)
    have f: "spec_separator (x # xs) = spec_separator xs"
      using 3 by (simp add: spec_separator_def)
    show ?thesis
      unfolding a b f enat_less_add1 by (rule Cons.IH)
  qed
qed

lemma foldl_merge_key:
  "acc = [] \<or> last acc \<noteq> [] \<Longrightarrow>
   foldl (merge_key sep) acc segs = acc @ spec_collapse sep segs"
proof (induction sep segs arbitrary: acc rule: spec_collapse.induct)
  case (1 sep)
  then show ?case by simp
next
  case (2 sep key)
  then show ?case by (auto simp: merge_key_def)
next
  case (3 sep key rest)
  have "merge_key sep acc [] = acc @ [[]]"
    using "3.prems" by (auto simp: merge_key_def)
  moreover have "merge_key sep (acc @ [[]]) key = acc @ [sep # key]"
    by (simp add: merge_key_def)
  ultimately show ?case
    using "3.IH" [of "acc @ [sep # key]"] by simp
next
  case (4 sep c cs key rest)
  have "merge_key sep acc (c # cs) = acc @ [c # cs]"
    using "4.prems" by (auto simp: merge_key_def)
  then show ?case
    using "4.IH" [of "acc @ [c # cs]"] by simp
qed

text \<open>
  C7. For every keystroke string, \<open>Keystroke\<close> takes as separator whichever of \<open>+\<close> and
  \<open>-\<close> occurs first in it (\<open>-\<close> when neither occurs), splits the string on it, and
  collapses, from left to right, each empty piece and the piece after it into one key, the
  separator followed by that piece. \<open>Ctrl+Shift+c\<close> gives \<open>Ctrl\<close>, \<open>Shift\<close>, \<open>c\<close>, and
  \<open>Ctrl++\<close> gives \<open>Ctrl\<close>, \<open>+\<close>.
\<close>

theorem Keystroke_spec:
  "Keystroke s = spec_collapse (spec_separator s) (js_split (spec_separator s) s)
   \<and> Keystroke (js ''Ctrl+Shift+c'') = [js ''Ctrl'', js ''Shift'', js ''c'']
   \<and> Keystroke (js ''Ctrl++'') = [js ''Ctrl'', js ''+'']"
proof -
  have gen: "Keystroke s = spec_collapse (spec_separator s) (js_split (spec_separator s) s)" for s
    using foldl_merge_key [of "[]"] by (simp add: Keystroke_def separator_spec Let_def)
  have "spec_separator (js ''Ctrl+Shift+c'') = 0x2B" "spec_separator (js ''Ctrl++'') = 0x2B"
    by (simp_all add: spec_separator_def js_def)
  then show ?thesis
    using gen by (simp add: js_def)
qed

text \<open>C7 at three strings whose separator is \<open>-\<close>, the last one with no separator in it.\<close>

theorem Keystroke_spec_witness:
  "Keystroke (js ''Ctrl-Alt-Del'') = [js ''Ctrl'', js ''Alt'', js ''Del'']
   \<and> Keystroke (js ''Ctrl--'') = [js ''Ctrl'', js ''-'']
   \<and> Keystroke (js ''a'') = [js ''a'']"
proof -
  have "spec_separator (js ''Ctrl-Alt-Del'') = 0x2D" "spec_separator (js ''Ctrl--'') = 0x2D"
    "spec_separator (js ''a'') = 0x2D"
    by (simp_all add: spec_separator_def js_def)
  then show ?thesis
    using Keystroke_spec [of "js ''Ctrl-Alt-Del''"] Keystroke_spec [of "js ''Ctrl--''"]
      Keystroke_spec [of "js ''a''"]
    by (simp add: js_def)
qed

lemmas tokenizer_defs =
  parseScriptToWords_def js_def match_here_def is_space_def is_plain_def not_newline_def
  word_step_def append_last_def Let_def

text \<open>
  C3 does not hold of the code. The input \<open># c\<close>, a comment at the very start with no
  newline after it, gives the words \<open>""\<close> and \<open>"c"\<close>: the first alternative of the regular
  expression needs the newline, so \<open>#\<close> is matched as a word of its own (and dropped), and
  what follows the next white space is read as words. The same comment is dropped whole
  when a newline ends it, or when it comes after white space.
\<close>

theorem parseScriptToWords_comment_without_newline:
  "parseScriptToWords (js ''# c'') = ([js '''', js ''c''], False)
   \<and> parseScriptToWords (js ''# c'' @ [0x0A]) = ([js ''''], False)
   \<and> parseScriptToWords (js ''a # c'') = ([js ''a''], False)"
  by (simp add: tokenizer_defs)

declare words_loop.simps [simp del]

lemmas tokenizer_eval = tokenizer_defs words_loop.simps

text \<open>
  The two paths that do drop a comment, for every input: a comment at the very start that a
  newline ends (the newline goes with it), and, outside quotes, a comment after white space
  (the newline stays).
\<close>

lemma words_loop_unfold:
  "regex_exec start input = Some (m, rest) \<Longrightarrow>
   words_loop start input st = words_loop False rest (word_step st m)"
  by (subst words_loop.simps) simp

lemma comment_line_at_start:
  assumes body: "list_all not_newline body"
  shows "parseScriptToWords (0x23 # body @ 0x0A # rest) = words_loop False rest ([[]], False)"
proof -
  have tw: "takeWhile not_newline (body @ 0x0A # rest) = body"
    using body by (induction body) (simp_all add: not_newline_def)
  have dw: "dropWhile not_newline (body @ 0x0A # rest) = 0x0A # rest"
    using body by (induction body) (simp_all add: not_newline_def)
  have "regex_exec True (0x23 # body @ 0x0A # rest) = Some (0x23 # body @ [0x0A], rest)"
    by (simp add: match_here_def tw dw is_space_def is_plain_def not_newline_def)
  from words_loop_unfold [OF this]
  show ?thesis
    by (simp add: parseScriptToWords_def word_step_def is_space_def)
qed

lemma comment_after_space:
  assumes ws: "ws \<noteq> []" "list_all is_space ws" and body: "list_all not_newline body"
    and unq: "\<not> snd st"
  shows "words_loop start (ws @ 0x23 # body) st = st"
    and "words_loop start (ws @ 0x23 # body @ 0x0A # rest) st = words_loop False (0x0A # rest) st"
proof -
  obtain w ws' where w: "ws = w # ws'" using ws(1) by (cases ws) auto
  have sp: "is_space w" using ws(2) w by simp
  then have nh: "w \<noteq> 0x23" "\<not> is_plain w" by (auto simp: is_space_def is_plain_def)
  have hash: "\<not> is_space 0x23" by (simp add: is_space_def)
  have tw: "takeWhile is_space (ws @ 0x23 # xs) = ws" for xs
    using ws(2) hash by (induction ws) simp_all
  have dw: "dropWhile is_space (ws @ 0x23 # xs) = 0x23 # xs" for xs
    using ws(2) hash by (induction ws) simp_all
  have tb: "takeWhile not_newline (body @ 0x0A # rest) = body" "takeWhile not_newline body = body"
    using body by (induction body) (simp_all add: not_newline_def)
  have db: "dropWhile not_newline (body @ 0x0A # rest) = 0x0A # rest" "dropWhile not_newline body = []"
    using body by (induction body) (simp_all add: not_newline_def)
  have nn: "not_newline 0x23" by (simp add: not_newline_def)
  have m1: "match_here start (ws @ 0x23 # body) = Some (ws @ 0x23 # body, [])"
    using tw [of body] dw [of body] sp nh nn tb db
    by (simp add: match_here_def w Let_def del: takeWhile_append2 dropWhile_append2)
  have m2: "match_here start (ws @ 0x23 # body @ 0x0A # rest)
              = Some (ws @ 0x23 # body, 0x0A # rest)"
    using tw [of "body @ 0x0A # rest"] dw [of "body @ 0x0A # rest"] sp nh nn tb db
    by (simp add: match_here_def w Let_def)
  have step: "word_step st (ws @ 0x23 # body) = st"
    using unq dw [of body] w nh sp
    by (cases st) (auto simp: word_step_def Let_def is_space_def)
  have "regex_exec start (ws @ 0x23 # body) = Some (ws @ 0x23 # body, [])"
    using m1 by (simp add: w)
  from words_loop_unfold [OF this] step show "words_loop start (ws @ 0x23 # body) st = st"
    by (simp add: words_loop.simps [of False "[]"])
  have "regex_exec start (ws @ 0x23 # body @ 0x0A # rest) = Some (ws @ 0x23 # body, 0x0A # rest)"
    using m2 by (simp add: w)
  from words_loop_unfold [OF this] step
  show "words_loop start (ws @ 0x23 # body @ 0x0A # rest) st = words_loop False (0x0A # rest) st"
    by simp
qed

text \<open>The tokenizer on the two examples of the specification.\<close>

lemma parseScriptToWords_examples:
  "parseScriptToWords (js ''key Ctrl+c \"say hello\" # trailing'')
     = ([js ''key'', js ''Ctrl+c'', js ''say hello''], False)"
  "snd (parseScriptToWords (js ''type \"unterminated'')) = True"
  by (simp_all add: tokenizer_eval)

lemma shift_other:
  "shift a s = (r, s1) \<Longrightarrow> b \<noteq> a \<Longrightarrow> arrays s1 b = arrays s b"
  by (auto simp: shift_def split: list.splits)

lemma map_params_other:
  "map_params ps cmd a s = (r, s1) \<Longrightarrow> b \<noteq> a \<Longrightarrow> arrays s1 b = arrays s b"
proof (induction ps arbitrary: s r s1)
  case Nil
  then show ?case by simp
next
  case (Cons parse ps)
  obtain w s' where sh: "shift a s = (w, s')" by (cases "shift a s")
  from shift_other [OF sh Cons.prems(2)] have s': "arrays s' b = arrays s b" .
  show ?case
  proof (cases w)
    case None
    with Cons.prems(1) sh s' show ?thesis by simp
  next
    case (Some word)
    show ?thesis
    proof (cases "parse word cmd")
      case (Inl e)
      with Cons.prems(1) sh Some s' show ?thesis by simp
    next
      case (Inr v)
      obtain r2 s2 where m: "map_params ps cmd a s' = (r2, s2)" by (cases "map_params ps cmd a s'")
      from Cons.IH [OF m Cons.prems(2)] s' have "arrays s2 b = arrays s b" by simp
      moreover from Cons.prems(1) sh Some Inr m have "s1 = s2" by (auto split: sum.splits)
      ultimately show ?thesis by simp
    qed
  qed
qed

lemma parse_loop_other:
  "parse_loop tbl a cmds s = (r, s1) \<Longrightarrow> b \<noteq> a \<Longrightarrow> arrays s1 b = arrays s b"
proof (induction tbl a cmds s arbitrary: r s1 rule: parse_loop.induct)
  case (1 tbl words cmds s)
  show ?case
  proof (cases "length (arrays s words) > 0")
    case False
    with "1.prems"(1) show ?thesis by (simp add: parse_loop.simps [of tbl words cmds s])
  next
    case True
    obtain w s' where sh: "shift words s = (w, s')" by (cases "shift words s")
    from shift_other [OF sh "1.prems"(2)] have s': "arrays s' b = arrays s b" .
    show ?thesis
    proof (cases w)
      case None
      with "1.prems"(1) True sh s' show ?thesis
        by (simp add: parse_loop.simps [of tbl words cmds s])
    next
      case (Some cmd)
      show ?thesis
      proof (cases "map_of tbl cmd")
        case None
        with "1.prems"(1) True sh Some s' show ?thesis
          by (simp add: parse_loop.simps [of tbl words cmds s])
      next
        case info: (Some info)
        show ?thesis
        proof (cases "length (arrays s' words) < length (cmd_params info)")
          case short: True
          with "1.prems"(1) True sh Some info s' show ?thesis
            by (simp add: parse_loop.simps [of tbl words cmds s])
        next
          case enough: False
          obtain r2 s2 where m: "map_params (cmd_params info) cmd words s' = (r2, s2)"
            by (cases "map_params (cmd_params info) cmd words s'")
          from map_params_other [OF m "1.prems"(2)] s' have s2: "arrays s2 b = arrays s b"
            by simp
          show ?thesis
          proof (cases r2)
            case (Inl e)
            with "1.prems"(1) True sh Some info enough m s2 show ?thesis
              by (simp add: parse_loop.simps [of tbl words cmds s])
          next
            case (Inr ps)
            with "1.prems"(1) True sh Some info enough m
            have "parse_loop tbl words (cmds @ [(cmd_method info, ps)]) s2 = (r, s1)"
              by (simp add: parse_loop.simps [of tbl words cmds s])
            from "1.IH" [OF True sh [symmetric] _ info enough m [symmetric] _ this "1.prems"(2)]
              Some Inr s2
            show ?thesis by simp
          qed
        qed
      qed
    qed
  qed
qed

text \<open>
  C10. \<open>parseCommands\<close> works on a copy: every array that exists when it is called, the
  argument among them, has the same elements after the call, whatever the result is, a
  command list or an error.
\<close>

theorem parseCommands_copies:
  "a < fresh s \<Longrightarrow> arrays (snd (parseCommands num words s)) a = arrays s a"
proof -
  assume a: "a < fresh s"
  let ?s1 = "s\<lparr> arrays := (arrays s)(fresh s := arrays s words), fresh := Suc (fresh s) \<rparr>"
  obtain r s2 where p: "parse_loop (Commands num) (fresh s) [] ?s1 = (r, s2)"
    by (cases "parse_loop (Commands num) (fresh s) [] ?s1")
  from a have "a \<noteq> fresh s" by simp
  from parse_loop_other [OF p this] a have "arrays s2 a = arrays s a" by simp
  with p show ?thesis by (simp add: parseCommands_def copy_array_def)
qed

lemma Commands_doubleclick:
  "map_of (Commands num) (js ''doubleclick'') =
     Some \<lparr> cmd_desc = ''Send a mouse <button> double-click.'', cmd_method = MouseClick,
            cmd_params = [String_param] \<rparr>"
  by (simp add: Commands_def js_eq_iff)

lemma Commands_move:
  "map_of (Commands num) (js ''move'') =
     Some \<lparr> cmd_desc = ''Move the mouse cursor to <X> <Y> coordinates.'', cmd_method = MouseMove,
            cmd_params = [UnsignedInt, UnsignedInt] \<rparr>"
  by (simp add: Commands_def js_eq_iff)

lemma parse_doubleclick:
  "arrays s words = [js ''doubleclick'', b] \<Longrightarrow>
   parseCommands num words s =
     (Inr [(MouseClick, [StrArg b])],
      s\<lparr> arrays := (arrays s)(fresh s := []), fresh := Suc (fresh s) \<rparr>)"
  by (simp add: parseCommands_def copy_array_def shift_def Commands_doubleclick String_param_def)

text \<open>
  C10 at a call that succeeds and at a call that throws Invalid-argument: the argument (at
  address 0) is unchanged, the words were shifted off the copy (at address 1).
\<close>

theorem parseCommands_copies_witness:
  "0 < fresh (store_of [js ''doubleclick'', js ''Left''])
   \<and> 0 < fresh (store_of [js ''move'', js ''10''])
   \<and> arrays (snd (parseCommands (\<lambda>v. None) 0 (store_of [js ''doubleclick'', js ''Left''])))  0
     = [js ''doubleclick'', js ''Left'']
   \<and> parseCommands (\<lambda>v. None) 0 (store_of [js ''doubleclick'', js ''Left'']) =
       (Inr [(MouseClick, [StrArg (js ''Left'')])],
        \<lparr> arrays = (\<lambda>a. [])(0 := [js ''doubleclick'', js ''Left''], 1 := []), fresh = 2 \<rparr>)
   \<and> arrays (snd (parseCommands (\<lambda>v. None) 0 (store_of [js ''move'', js ''10'']))) 0
     = [js ''move'', js ''10'']
   \<and> parseCommands (\<lambda>v. None) 0 (store_of [js ''move'', js ''10'']) =
       (Inl (INVALID_ARGUMENT (js ''move'')),
        \<lparr> arrays = (\<lambda>a. [])(0 := [js ''move'', js ''10''], 1 := [js ''10'']), fresh = 2 \<rparr>)"
proof -
  have "parseCommands (\<lambda>v. None) 0 (store_of [js ''doubleclick'', js ''Left'']) =
       (Inr [(MouseClick, [StrArg (js ''Left'')])],
        \<lparr> arrays = (\<lambda>a. [])(0 := [js ''doubleclick'', js ''Left''], 1 := []), fresh = 2 \<rparr>)"
    by (simp add: parseCommands_def copy_array_def shift_def Commands_doubleclick
        String_param_def store_of_def)
  moreover have "parseCommands (\<lambda>v. None) 0 (store_of [js ''move'', js ''10'']) =
       (Inl (INVALID_ARGUMENT (js ''move'')),
        \<lparr> arrays = (\<lambda>a. [])(0 := [js ''move'', js ''10''], 1 := [js ''10'']), fresh = 2 \<rparr>)"
    by (simp add: parseCommands_def copy_array_def shift_def Commands_move store_of_def)
  ultimately show ?thesis
    using parseCommands_copies [of 0 "store_of [js ''doubleclick'', js ''Left'']" "\<lambda>v. None" 0]
      parseCommands_copies [of 0 "store_of [js ''move'', js ''10'']" "\<lambda>v. None" 0]
    by (simp add: store_of_def)
qed

section \<open>Properties of the client\<close>

declare click_loop.simps [simp del]

lemma guard_connected: "isConnected s \<Longrightarrow> CheckConnectedDecorator f s = f s"
  by (simp add: CheckConnectedDecorator_def)

lemma guard_not_connected:
  "\<not> isConnected s \<Longrightarrow> CheckConnectedDecorator f s = (Inl NOT_CONNECTED, s)"
  by (simp add: CheckConnectedDecorator_def)

lemma keys_empty:
  "isConnected s \<Longrightarrow> keysDown cfg [] s = (Inr (), s)"
  "isConnected s \<Longrightarrow> keysUp cfg [] s = (Inr (), s)"
  by (simp_all add: keysDown_def keysUp_def guard_connected return_def)

lemma setMouseButtonState_Left:
  "setMouseButtonState (js ''Left'') v s = (Inr (), s\<lparr> mouseState := (mouseState s)\<lparr> left := v \<rparr> \<rparr>)"
  by (simp add: setMouseButtonState_def mouseButtonToStateProp_def set_button_def js_eq_iff)

lemma setMouseButtonState_ScrollUp:
  "setMouseButtonState (js ''ScrollUp'') v s = (Inr (), s\<lparr> mouseState := (mouseState s)\<lparr> up := v \<rparr> \<rparr>)"
  by (simp add: setMouseButtonState_def mouseButtonToStateProp_def set_button_def js_eq_iff)

lemma setMouseButtonState_ScrollDown:
  "setMouseButtonState (js ''ScrollDown'') v s = (Inr (), s\<lparr> mouseState := (mouseState s)\<lparr> down := v \<rparr> \<rparr>)"
  by (simp add: setMouseButtonState_def mouseButtonToStateProp_def set_button_def js_eq_iff)

lemma mouseButton_sends:
  assumes set: "\<And>v s. setMouseButtonState button v s = (Inr (), s\<lparr> mouseState := upd v (mouseState s) \<rparr>)"
    and conn: "isConnected s"
  shows "mouseButtonDown cfg button s =
           (Inr (), s\<lparr> mouseState := upd True (mouseState s),
                        events := events s @ [SendMouseState (upd True (mouseState s))] \<rparr>)"
    and "mouseButtonUp cfg button s =
           (Inr (), s\<lparr> mouseState := upd False (mouseState s),
                        events := events s @ [SendMouseState (upd False (mouseState s))] \<rparr>)"
  using conn
  by (simp_all add: mouseButtonDown_def mouseButtonUp_def guard_connected seq_def set
      sendMouseState_def emit_def)

lemma click_loop_step:
  "click_loop cfg button gap (int (Suc n)) =
     seq (mouseButtonDown cfg button)
       (seq (delay (toggleDelay (options cfg)))
         (seq (mouseButtonUp cfg button)
           (seq (if n > 0 then delay gap else return ())
             (click_loop cfg button gap (int n)))))"
  by (subst click_loop.simps) simp

lemma click_loop_done: "count \<le> 0 \<Longrightarrow> click_loop cfg button gap count = return ()"
  by (subst click_loop.simps) simp

lemma click_loop_events:
  assumes set: "\<And>v s. setMouseButtonState button v s = (Inr (), s\<lparr> mouseState := upd v (mouseState s) \<rparr>)"
    and idem: "\<And>v w ms. upd v (upd w ms) = upd v ms"
  shows "isConnected s \<Longrightarrow>
    click_loop cfg button gap (int n) s =
      (Inr (),
       s\<lparr> mouseState := (if n = 0 then mouseState s else upd False (mouseState s)),
          events := events s @
            (if n = 0 then []
             else [SendMouseState (upd True (mouseState s)), Delay (toggleDelay (options cfg)),
                   SendMouseState (upd False (mouseState s))]
                  @ concat (replicate (n - 1)
                      [Delay gap, SendMouseState (upd True (mouseState s)),
                       Delay (toggleDelay (options cfg)),
                       SendMouseState (upd False (mouseState s))])) \<rparr>)"
proof (induction n arbitrary: s)
  case 0
  then show ?case by (simp add: click_loop_done return_def)
next
  case (Suc n)
  let ?t = "toggleDelay (options cfg)"
  let ?D = "SendMouseState (upd True (mouseState s))"
  let ?U = "SendMouseState (upd False (mouseState s))"
  let ?s3 = "s\<lparr> mouseState := upd False (mouseState s),
                events := events s @ [?D, Delay ?t, ?U] \<rparr>"
  have pair: "seq (mouseButtonDown cfg button)
                (seq (delay ?t) (seq (mouseButtonUp cfg button) k)) s = k ?s3" for k :: "unit action"
    using Suc.prems
    by (simp add: seq_def mouseButton_sends [where upd = upd, OF set] delay_def emit_def idem)
  have step: "click_loop cfg button gap (int (Suc n)) s =
                seq (if n > 0 then delay gap else return ()) (click_loop cfg button gap (int n)) ?s3"
    by (simp only: click_loop_step pair)
  show ?case
  proof (cases "n = 0")
    case True
    then show ?thesis
      unfolding step by (simp add: seq_def return_def click_loop_done)
  next
    case False
    let ?s4 = "s\<lparr> mouseState := upd False (mouseState s),
                  events := events s @ [?D, Delay ?t, ?U, Delay gap] \<rparr>"
    have c4: "isConnected ?s4" using Suc.prems by simp
    have rep: "concat (replicate n xs) = xs @ concat (replicate (n - 1) xs)" for xs :: "event list"
      using False by (cases n) simp_all
    show ?thesis
      unfolding step using False
      by (simp add: seq_def delay_def emit_def Suc.IH [OF c4] idem rep)
  qed
qed

lemma mouseClick_events:
  assumes set: "\<And>v s. setMouseButtonState button v s = (Inr (), s\<lparr> mouseState := upd v (mouseState s) \<rparr>)"
    and idem: "\<And>v w ms. upd v (upd w ms) = upd v ms"
    and conn: "isConnected s"
  shows "mouseClick cfg button (int n) [] s =
    (Inr (),
       s\<lparr> mouseState := (if n = 0 then mouseState s else upd False (mouseState s)),
          events := events s @
            (if n = 0 then []
             else [SendMouseState (upd True (mouseState s)), Delay (toggleDelay (options cfg)),
                   SendMouseState (upd False (mouseState s))]
                  @ concat (replicate (n - 1)
                      [Delay (doubleClickDelay (options cfg)),
                       SendMouseState (upd True (mouseState s)),
                       Delay (toggleDelay (options cfg)),
                       SendMouseState (upd False (mouseState s))])) \<rparr>)"
  using conn
  by (simp add: mouseClick_def guard_connected seq_def keys_empty
      click_loop_events [where upd = upd, OF set idem])

text \<open>
  C5. With \<open>toggleDelay = 12\<close> and \<open>doubleClickDelay = 100\<close>, \<open>mouseClick("Left", 2)\<close> on a
  connected client succeeds and adds to the events exactly: the mouse state with the left
  button down, a delay of 12, the mouse state with the left button up, a delay of 100, left
  down, a delay of 12, left up. There is one delay of 100, no key event (the modifier list
  is empty) and no delay after the last release.
\<close>

theorem mouseClick_Left_twice:
  "toggleDelay (options cfg) = 12 \<Longrightarrow> doubleClickDelay (options cfg) = 100
   \<Longrightarrow> isConnected s
   \<Longrightarrow> mouseClick cfg (js ''Left'') 2 [] s =
        (Inr (),
         s\<lparr> mouseState := (mouseState s)\<lparr> left := False \<rparr>,
            events := events s @
              [SendMouseState ((mouseState s)\<lparr> left := True \<rparr>), Delay 12,
               SendMouseState ((mouseState s)\<lparr> left := False \<rparr>), Delay 100,
               SendMouseState ((mouseState s)\<lparr> left := True \<rparr>), Delay 12,
               SendMouseState ((mouseState s)\<lparr> left := False \<rparr>)] \<rparr>)"
  using mouseClick_events [where upd = "\<lambda>v ms. ms\<lparr> left := v \<rparr>" and n = 2 and cfg = cfg
      and button = "js ''Left''" and s = s, OF setMouseButtonState_Left]
  by simp

text \<open>C5 on the example client, which has the default delays.\<close>

theorem mouseClick_Left_twice_witness:
  "toggleDelay (options example_config) = 12 \<and> doubleClickDelay (options example_config) = 100
   \<and> isConnected connected_state
   \<and> mouseClick example_config (js ''Left'') 2 [] connected_state =
        (Inr (),
         connected_state\<lparr> events :=
              [SendMouseState (initial_MouseState\<lparr> left := True \<rparr>), Delay 12,
               SendMouseState initial_MouseState, Delay 100,
               SendMouseState (initial_MouseState\<lparr> left := True \<rparr>), Delay 12,
               SendMouseState initial_MouseState] \<rparr>)"
  using mouseClick_Left_twice [of example_config connected_state]
  by (simp add: example_config_def connected_state_def defaultOptions_def initial_MouseState_def)

lemma scroll_general:
  "isConnected s \<Longrightarrow>
   scroll cfg lines s =
     (if lines = 0 then (Inr (), s)
      else if lines > 0
      then (Inr (),
            s\<lparr> mouseState := (mouseState s)\<lparr> up := False \<rparr>,
               events := events s @
                 [SendMouseState ((mouseState s)\<lparr> up := True \<rparr>),
                  Delay (toggleDelay (options cfg)),
                  SendMouseState ((mouseState s)\<lparr> up := False \<rparr>)]
                 @ concat (replicate (nat \<bar>lines\<bar> - 1)
                     [Delay (toggleDelay (options cfg)),
                      SendMouseState ((mouseState s)\<lparr> up := True \<rparr>),
                      Delay (toggleDelay (options cfg)),
                      SendMouseState ((mouseState s)\<lparr> up := False \<rparr>)]) \<rparr>)
      else (Inr (),
            s\<lparr> mouseState := (mouseState s)\<lparr> down := False \<rparr>,
               events := events s @
                 [SendMouseState ((mouseState s)\<lparr> down := True \<rparr>),
                  Delay (toggleDelay (options cfg)),
                  SendMouseState ((mouseState s)\<lparr> down := False \<rparr>)]
                 @ concat (replicate (nat \<bar>lines\<bar> - 1)
                     [Delay (toggleDelay (options cfg)),
                      SendMouseState ((mouseState s)\<lparr> down := True \<rparr>),
                      Delay (toggleDelay (options cfg)),
                      SendMouseState ((mouseState s)\<lparr> down := False \<rparr>)]) \<rparr>))"
proof -
  assume conn: "isConnected s"
  have abs: "\<bar>lines\<bar> = int (nat \<bar>lines\<bar>)" by simp
  consider "lines = 0" | "lines > 0" | "lines < 0" by linarith
  then show ?thesis
  proof cases
    case 1
    then show ?thesis
      using conn by (simp add: scroll_def guard_connected click_loop_done return_def)
  next
    case 2
    have "scroll cfg lines s =
            click_loop cfg (js ''ScrollUp'') (toggleDelay (options cfg)) (int (nat \<bar>lines\<bar>)) s"
      using conn 2 by (simp add: scroll_def guard_connected)
    also note click_loop_events [where upd = "\<lambda>v ms. ms\<lparr> up := v \<rparr>", OF setMouseButtonState_ScrollUp _ conn]
    finally show ?thesis using 2 by simp
  next
    case 3
    have "scroll cfg lines s =
            click_loop cfg (js ''ScrollDown'') (toggleDelay (options cfg)) (int (nat \<bar>lines\<bar>)) s"
      using conn 3 by (simp add: scroll_def guard_connected)
    also note click_loop_events [where upd = "\<lambda>v ms. ms\<lparr> down := v \<rparr>", OF setMouseButtonState_ScrollDown _ conn]
    finally show ?thesis using 3 by simp
  qed
qed

text \<open>
  C6. For every integer \<open>lines\<close>, \<open>scroll(lines)\<close> on a connected client presses and
  releases \<open>ScrollUp\<close> if \<open>lines > 0\<close> and \<open>ScrollDown\<close> otherwise, \<open>abs(lines)\<close> times; the
  delay between a press and its release and the delay between two repeats are both
  \<open>toggleDelay\<close>, whatever \<open>doubleClickDelay\<close> is. \<open>scroll(-3)\<close> sends exactly three
  \<open>ScrollDown\<close> press and release pairs.
\<close>

theorem scroll_events:
  "isConnected s \<Longrightarrow>
   scroll cfg lines s =
     (if lines = 0 then (Inr (), s)
      else if lines > 0
      then (Inr (),
            s\<lparr> mouseState := (mouseState s)\<lparr> up := False \<rparr>,
               events := events s @
                 [SendMouseState ((mouseState s)\<lparr> up := True \<rparr>),
                  Delay (toggleDelay (options cfg)),
                  SendMouseState ((mouseState s)\<lparr> up := False \<rparr>)]
                 @ concat (replicate (nat \<bar>lines\<bar> - 1)
                     [Delay (toggleDelay (options cfg)),
                      SendMouseState ((mouseState s)\<lparr> up := True \<rparr>),
                      Delay (toggleDelay (options cfg)),
                      SendMouseState ((mouseState s)\<lparr> up := False \<rparr>)]) \<rparr>)
      else (Inr (),
            s\<lparr> mouseState := (mouseState s)\<lparr> down := False \<rparr>,
               events := events s @
                 [SendMouseState ((mouseState s)\<lparr> down := True \<rparr>),
                  Delay (toggleDelay (options cfg)),
                  SendMouseState ((mouseState s)\<lparr> down := False \<rparr>)]
                 @ concat (replicate (nat \<bar>lines\<bar> - 1)
                     [Delay (toggleDelay (options cfg)),
                      SendMouseState ((mouseState s)\<lparr> down := True \<rparr>),
                      Delay (toggleDelay (options cfg)),
                      SendMouseState ((mouseState s)\<lparr> down := False \<rparr>)]) \<rparr>))
   \<and> scroll cfg (- 3) s =
       (Inr (),
        s\<lparr> mouseState := (mouseState s)\<lparr> down := False \<rparr>,
           events := events s @
             [SendMouseState ((mouseState s)\<lparr> down := True \<rparr>),
              Delay (toggleDelay (options cfg)),
              SendMouseState ((mouseState s)\<lparr> down := False \<rparr>),
              Delay (toggleDelay (options cfg)),
              SendMouseState ((mouseState s)\<lparr> down := True \<rparr>),
              Delay (toggleDelay (options cfg)),
              SendMouseState ((mouseState s)\<lparr> down := False \<rparr>),
              Delay (toggleDelay (options cfg)),
              SendMouseState ((mouseState s)\<lparr> down := True \<rparr>),
              Delay (toggleDelay (options cfg)),
              SendMouseState ((mouseState s)\<lparr> down := False \<rparr>)] \<rparr>)"
proof -
  assume conn: "isConnected s"
  have two: "replicate 2 x = [x, x]" for x :: "event list"
    by (simp add: numeral_2_eq_2)
  from scroll_general [OF conn, of cfg "- 3"] have "scroll cfg (- 3) s =
       (Inr (),
        s\<lparr> mouseState := (mouseState s)\<lparr> down := False \<rparr>,
           events := events s @
             [SendMouseState ((mouseState s)\<lparr> down := True \<rparr>),
              Delay (toggleDelay (options cfg)),
              SendMouseState ((mouseState s)\<lparr> down := False \<rparr>),
              Delay (toggleDelay (options cfg)),
              SendMouseState ((mouseState s)\<lparr> down := True \<rparr>),
              Delay (toggleDelay (options cfg)),
              SendMouseState ((mouseState s)\<lparr> down := False \<rparr>),
              Delay (toggleDelay (options cfg)),
              SendMouseState ((mouseState s)\<lparr> down := True \<rparr>),
              Delay (toggleDelay (options cfg)),
              SendMouseState ((mouseState s)\<lparr> down := False \<rparr>)] \<rparr>)"
    by (simp add: two)
  with scroll_general [OF conn, of cfg lines] show ?thesis
    by (simp only: simp_thms)
qed

text \<open>C6 on the example client, for \<open>scroll(-3)\<close> and \<open>scroll(2)\<close>.\<close>

theorem scroll_events_witness:
  "isConnected connected_state
   \<and> scroll example_config (- 3) connected_state =
       (Inr (),
        connected_state\<lparr> events :=
          [SendMouseState (initial_MouseState\<lparr> down := True \<rparr>), Delay 12,
           SendMouseState initial_MouseState, Delay 12,
           SendMouseState (initial_MouseState\<lparr> down := True \<rparr>), Delay 12,
           SendMouseState initial_MouseState, Delay 12,
           SendMouseState (initial_MouseState\<lparr> down := True \<rparr>), Delay 12,
           SendMouseState initial_MouseState] \<rparr>)
   \<and> scroll example_config 2 connected_state =
       (Inr (),
        connected_state\<lparr> events :=
          [SendMouseState (initial_MouseState\<lparr> up := True \<rparr>), Delay 12,
           SendMouseState initial_MouseState, Delay 12,
           SendMouseState (initial_MouseState\<lparr> up := True \<rparr>), Delay 12,
           SendMouseState initial_MouseState] \<rparr>)"
proof -
  have three: "replicate 2 x = [x, x]" for x :: "event list"
    by (simp add: numeral_2_eq_2)
  show ?thesis
    using scroll_events [of connected_state example_config "- 3"]
      scroll_events [of connected_state example_config 2]
    by (simp add: example_config_def connected_state_def defaultOptions_def
        initial_MouseState_def three)
qed

lemma not_connected_typed:
  assumes "\<not> isConnected s"
  shows "keysPress cfg keys s = (Inl NOT_CONNECTED, s)"
    and "keysDown cfg keys s = (Inl NOT_CONNECTED, s)"
    and "keysUp cfg keys s = (Inl NOT_CONNECTED, s)"
    and "type cfg text s = (Inl NOT_CONNECTED, s)"
    and "mouseClick cfg button count mods s = (Inl NOT_CONNECTED, s)"
    and "mouseDoubleClick cfg button s = (Inl NOT_CONNECTED, s)"
    and "mouseButtonDown cfg button s = (Inl NOT_CONNECTED, s)"
    and "mouseButtonUp cfg button s = (Inl NOT_CONNECTED, s)"
    and "scroll cfg lines s = (Inl NOT_CONNECTED, s)"
    and "mouseMove cfg x y s = (Inl NOT_CONNECTED, s)"
    and "captureScreen cfg s = (Inl NOT_CONNECTED, s)"
    and "captureScreenToFile cfg filename s = (Inl NOT_CONNECTED, s)"
    and "pause cfg seconds s = (Inl NOT_CONNECTED, s)"
    and "disconnect cfg s = (Inl NOT_CONNECTED, s)"
  using assms
  by (simp_all add: keysPress_def keysDown_def keysUp_def type_def mouseClick_def
      mouseDoubleClick_def mouseButtonDown_def mouseButtonUp_def scroll_def mouseMove_def
      captureScreen_def captureScreenToFile_def pause_def disconnect_def guard_not_connected)

lemma not_connected_apply:
  assumes "\<not> isConnected s"
  shows "apply_method cfg m args s = (Inl NOT_CONNECTED, s)"
proof -
  have ill: "ill_typed s = (Inl NOT_CONNECTED, s)"
    using assms by (simp add: ill_typed_def guard_not_connected)
  have cap: "drop_result (captureScreen cfg) s = (Inl NOT_CONNECTED, s)"
    using assms by (simp add: drop_result_def bind_def not_connected_typed)
  show ?thesis
  proof (cases m)
    case KeysPress
    then show ?thesis using assms ill
      by (simp add: apply_method_def not_connected_typed split: list.splits arg.splits)
  next
    case KeysDown
    then show ?thesis using assms ill
      by (simp add: apply_method_def not_connected_typed split: list.splits arg.splits)
  next
    case KeysUp
    then show ?thesis using assms ill
      by (simp add: apply_method_def not_connected_typed split: list.splits arg.splits)
  next
    case Type
    then show ?thesis using assms ill
      by (simp add: apply_method_def not_connected_typed split: list.splits arg.splits)
  next
    case MouseClick
    then show ?thesis using assms ill
      by (simp add: apply_method_def not_connected_typed split: list.splits arg.splits)
  next
    case MouseDoubleClick
    then show ?thesis using assms ill
      by (simp add: apply_method_def not_connected_typed split: list.splits arg.splits)
  next
    case MouseButtonDown
    then show ?thesis using assms ill
      by (simp add: apply_method_def not_connected_typed split: list.splits arg.splits)
  next
    case MouseButtonUp
    then show ?thesis using assms ill
      by (simp add: apply_method_def not_connected_typed split: list.splits arg.splits)
  next
    case Scroll
    then show ?thesis using assms ill
      by (simp add: apply_method_def not_connected_typed split: list.splits arg.splits)
  next
    case MouseMove
    then show ?thesis using assms ill
      by (simp add: apply_method_def not_connected_typed split: list.splits arg.splits)
  next
    case CaptureScreen
    then show ?thesis using assms ill cap
      by (simp add: apply_method_def split: list.splits)
  next
    case CaptureScreenToFile
    then show ?thesis using assms ill
      by (simp add: apply_method_def not_connected_typed split: list.splits arg.splits)
  next
    case Pause
    then show ?thesis using assms ill
      by (simp add: apply_method_def not_connected_typed split: list.splits arg.splits)
  next
    case Disconnect
    then show ?thesis using assms ill
      by (simp add: apply_method_def not_connected_typed split: list.splits)
  qed
qed

text \<open>
  C2. When the transport is not connected, every method of the client, called through
  \<open>client[cmd](...args)\<close> with any argument list or directly, fails with Not-Connected and
  leaves the state as it is: no event is sent and the mouse state is unchanged.
\<close>

theorem not_connected_fails:
  "\<not> isConnected s \<Longrightarrow>
     apply_method cfg m args s = (Inl NOT_CONNECTED, s)
   \<and> keysPress cfg keys s = (Inl NOT_CONNECTED, s)
   \<and> keysDown cfg keys s = (Inl NOT_CONNECTED, s)
   \<and> keysUp cfg keys s = (Inl NOT_CONNECTED, s)
   \<and> type cfg text s = (Inl NOT_CONNECTED, s)
   \<and> mouseClick cfg button count mods s = (Inl NOT_CONNECTED, s)
   \<and> mouseDoubleClick cfg button s = (Inl NOT_CONNECTED, s)
   \<and> mouseButtonDown cfg button s = (Inl NOT_CONNECTED, s)
   \<and> mouseButtonUp cfg button s = (Inl NOT_CONNECTED, s)
   \<and> scroll cfg lines s = (Inl NOT_CONNECTED, s)
   \<and> mouseMove cfg x y s = (Inl NOT_CONNECTED, s)
   \<and> captureScreen cfg s = (Inl NOT_CONNECTED, s)
   \<and> captureScreenToFile cfg filename s = (Inl NOT_CONNECTED, s)
   \<and> pause cfg seconds s = (Inl NOT_CONNECTED, s)
   \<and> disconnect cfg s = (Inl NOT_CONNECTED, s)"
  by (simp add: not_connected_typed not_connected_apply)

lemma disconnect_connected:
  "isConnected s \<Longrightarrow>
   disconnect cfg s = (Inr (), s\<lparr> isConnected := False, events := events s @ [ClientDisconnect] \<rparr>)"
  by (simp add: disconnect_def guard_connected)

text \<open>C2 on the example client after \<open>disconnect()\<close>, which is the one event on record.\<close>

theorem not_connected_fails_witness:
  "disconnect example_config connected_state =
     (Inr (), connected_state\<lparr> isConnected := False, events := [ClientDisconnect] \<rparr>)
   \<and> apply_method example_config Scroll [IntArg (- 3)]
        (connected_state\<lparr> isConnected := False, events := [ClientDisconnect] \<rparr>) =
       (Inl NOT_CONNECTED, connected_state\<lparr> isConnected := False, events := [ClientDisconnect] \<rparr>)
   \<and> mouseClick example_config (js ''Left'') 2 []
        (connected_state\<lparr> isConnected := False, events := [ClientDisconnect] \<rparr>) =
       (Inl NOT_CONNECTED, connected_state\<lparr> isConnected := False, events := [ClientDisconnect] \<rparr>)"
  using not_connected_fails [of "connected_state\<lparr> isConnected := False, events := [ClientDisconnect] \<rparr>"
      example_config Scroll "[IntArg (- 3)]" "[]" "[]" "js ''Left''" 2 "[]" 0 0 0 "[]" 0]
    disconnect_connected [of connected_state example_config]
  by (simp add: connected_state_def)

lemma interpret_doubleclick:
  "interpretCommands cfg [(MouseClick, [StrArg b])] s = mouseClick cfg b 1 [] s"
  by (cases "mouseClick cfg b 1 [] s")
     (auto simp: apply_method_def seq_def return_def split: sum.splits)

text \<open>
  C1 does not hold of the code. The words \<open>doubleclick Left\<close> are parsed, but into the
  command \<open>mouseClick("Left")\<close>: the registry names the method \<open>mouseClick\<close> for
  \<open>doubleclick\<close>, with the button as its only parameter, so \<open>count\<close> is 1. On the example
  client the command sends one press and release, where \<open>mouseDoubleClick("Left")\<close> sends
  two with the double-click delay between them.
\<close>

theorem doubleclick_clicks_once:
  "parseCommands (\<lambda>v. None) 0 (store_of [js ''doubleclick'', js ''Left'']) =
     (Inr [(MouseClick, [StrArg (js ''Left'')])],
      \<lparr> arrays = (\<lambda>a. [])(0 := [js ''doubleclick'', js ''Left''], 1 := []), fresh = 2 \<rparr>)
   \<and> interpretCommands example_config [(MouseClick, [StrArg (js ''Left'')])] connected_state =
       (Inr (),
        connected_state\<lparr> events :=
          [SendMouseState (initial_MouseState\<lparr> left := True \<rparr>), Delay 12,
           SendMouseState initial_MouseState] \<rparr>)
   \<and> mouseDoubleClick example_config (js ''Left'') connected_state =
       (Inr (),
        connected_state\<lparr> events :=
          [SendMouseState (initial_MouseState\<lparr> left := True \<rparr>), Delay 12,
           SendMouseState initial_MouseState, Delay 100,
           SendMouseState (initial_MouseState\<lparr> left := True \<rparr>), Delay 12,
           SendMouseState initial_MouseState] \<rparr>)"
proof -
  have conn: "isConnected connected_state"
    by (simp add: connected_state_def)
  have p: "parseCommands (\<lambda>v. None) 0 (store_of [js ''doubleclick'', js ''Left'']) =
     (Inr [(MouseClick, [StrArg (js ''Left'')])],
      \<lparr> arrays = (\<lambda>a. [])(0 := [js ''doubleclick'', js ''Left''], 1 := []), fresh = 2 \<rparr>)"
    by (simp add: parse_doubleclick store_of_def)
  have one: "mouseClick example_config (js ''Left'') 1 [] connected_state =
       (Inr (),
        connected_state\<lparr> events :=
          [SendMouseState (initial_MouseState\<lparr> left := True \<rparr>), Delay 12,
           SendMouseState initial_MouseState] \<rparr>)"
    using mouseClick_events [where upd = "\<lambda>v ms. ms\<lparr> left := v \<rparr>" and n = 1
        and cfg = example_config and button = "js ''Left''" and s = connected_state,
        OF setMouseButtonState_Left _ conn]
    by (simp add: example_config_def connected_state_def defaultOptions_def
        initial_MouseState_def)
  have two: "mouseClick example_config (js ''Left'') 2 [] connected_state =
       (Inr (),
        connected_state\<lparr> events :=
          [SendMouseState (initial_MouseState\<lparr> left := True \<rparr>), Delay 12,
           SendMouseState initial_MouseState, Delay 100,
           SendMouseState (initial_MouseState\<lparr> left := True \<rparr>), Delay 12,
           SendMouseState initial_MouseState] \<rparr>)"
    using mouseClick_events [where upd = "\<lambda>v ms. ms\<lparr> left := v \<rparr>" and n = 2
        and cfg = example_config and button = "js ''Left''" and s = connected_state,
        OF setMouseButtonState_Left _ conn]
    by (simp add: example_config_def connected_state_def defaultOptions_def
        initial_MouseState_def)
  have dbl: "mouseDoubleClick example_config (js ''Left'') connected_state =
               mouseClick example_config (js ''Left'') 2 [] connected_state"
    using conn by (simp add: mouseDoubleClick_def guard_connected)
  show ?thesis
    unfolding interpret_doubleclick dbl p one two by simp
qed

end
